theory Spec2Isabelle
  imports Complex_Main "HOL-Library.Word"
begin

section \<open>Floating-point values\<close>

text \<open>
  The scheduler computes with C \<^verbatim>\<open>float\<close> (IEEE-754 binary32) and \<^verbatim>\<open>double\<close> (binary64).
  A value is a finite real (\<open>Fin 0\<close> is \<^verbatim>\<open>+0.0\<close>), the negative zero \<open>NZero\<close>, one of the
  two infinities, or NaN. Each operation rounds its exact result to the format it is
  carried out in, to nearest with ties to even, so that the values computed from
  representable operands are the representable ones the machine computes; a \<^verbatim>\<open>float\<close>
  converts to \<^verbatim>\<open>double\<close> without change.
\<close>

datatype fp = Fin real | NZero | PInf | NInf | NaN

text \<open>
  Rounding to precision \<open>p\<close> with largest exponent \<open>emax\<close> (and least exponent
  \<open>1 - emax\<close>): \<open>ilog2 x\<close> is the exponent of a positive \<open>x\<close>, the greatest \<open>e\<close> with
  \<open>2^e \<le> x\<close>; the magnitude is rounded to a multiple of the unit in the last place, to an
  even multiple when it lies half-way; a result of magnitude \<open>2^(emax + 1)\<close> or more is an
  infinity, and a result that rounds to nothing is a zero with the sign of \<open>x\<close>.
\<close>

function nlog2 :: "int \<Rightarrow> int" where
  "nlog2 n = (if n < 2 then 0 else nlog2 (n div 2) + 1)"
  by pat_completeness auto
termination
  by (relation "measure nat") auto

declare nlog2.simps [simp del]

definition pow2 :: "int \<Rightarrow> real" where
  "pow2 e = (if 0 \<le> e then 2 ^ nat e else 1 / 2 ^ nat (- e))"

definition ilog2 :: "real \<Rightarrow> int" where
  "ilog2 x = (if 1 \<le> x then nlog2 \<lfloor>x\<rfloor>
              else - (nlog2 (\<lceil>1 / x\<rceil> - 1) + 1))"

definition round_even :: "real \<Rightarrow> int" where
  "round_even r =
     (let f = \<lfloor>r\<rfloor> in
      if r - of_int f < 1 / 2 then f
      else if 1 / 2 < r - of_int f then f + 1
      else if even f then f else f + 1)"

definition fp_round :: "nat \<Rightarrow> int \<Rightarrow> real \<Rightarrow> fp" where
  "fp_round p emax x =
     (if x = 0 then Fin 0
      else
        (let e = max (ilog2 \<bar>x\<bar>) (1 - emax);
             ulp = pow2 (e - int p + 1);
             n = round_even (\<bar>x\<bar> / ulp);
             y = of_int n * ulp
         in if pow2 (emax + 1) \<le> y then (if 0 < x then PInf else NInf)
            else if n = 0 then (if 0 < x then Fin 0 else NZero)
            else Fin (if 0 < x then y else - y)))"

definition round_double :: "real \<Rightarrow> fp" where
  "round_double = fp_round 53 1023"

definition round_float :: "real \<Rightarrow> fp" where
  "round_float = fp_round 24 127"

fun is_nan :: "fp \<Rightarrow> bool" where
  "is_nan NaN = True"
| "is_nan x = False"

fun is_inf :: "fp \<Rightarrow> bool" where
  "is_inf PInf = True"
| "is_inf NInf = True"
| "is_inf x = False"

fun is_zero :: "fp \<Rightarrow> bool" where
  "is_zero (Fin a) = (a = 0)"
| "is_zero NZero = True"
| "is_zero x = False"

fun sign_bit :: "fp \<Rightarrow> bool" where
  "sign_bit (Fin a) = (a < 0)"
| "sign_bit NZero = True"
| "sign_bit NInf = True"
| "sign_bit x = False"

fun fp_real :: "fp \<Rightarrow> real" where
  "fp_real (Fin a) = a"
| "fp_real x = 0"

definition signed_zero :: "bool \<Rightarrow> fp" where
  "signed_zero negative = (if negative then NZero else Fin 0)"

definition signed_inf :: "bool \<Rightarrow> fp" where
  "signed_inf negative = (if negative then NInf else PInf)"

text \<open>
  The operations, with the IEEE-754 rules for the special values: an undefined operation
  gives NaN, a division of a non-zero value by a zero gives an infinity, the sign of a
  product or quotient is the exclusive or of the signs, and every comparison with NaN is
  false. \<open>fp_add\<close>, \<open>fp_sub\<close>, \<open>fp_mul\<close> and \<open>fp_div\<close> are the operations on
  \<^verbatim>\<open>double\<close>; \<open>fp_mulf\<close> is the product of two \<^verbatim>\<open>float\<close>.
\<close>

fun fp_neg :: "fp \<Rightarrow> fp" where
  "fp_neg (Fin a) = (if a = 0 then NZero else Fin (- a))"
| "fp_neg NZero = Fin 0"
| "fp_neg PInf = NInf"
| "fp_neg NInf = PInf"
| "fp_neg NaN = NaN"

definition fp_add :: "fp \<Rightarrow> fp \<Rightarrow> fp" where
  "fp_add x y =
     (if is_nan x \<or> is_nan y then NaN
      else if is_inf x then (if is_inf y \<and> y \<noteq> x then NaN else x)
      else if is_inf y then y
      else if x = NZero \<and> y = NZero then NZero
      else round_double (fp_real x + fp_real y))"

definition fp_sub :: "fp \<Rightarrow> fp \<Rightarrow> fp" where
  "fp_sub x y = fp_add x (fp_neg y)"

definition fp_times :: "(real \<Rightarrow> fp) \<Rightarrow> fp \<Rightarrow> fp \<Rightarrow> fp" where
  "fp_times rnd x y =
     (if is_nan x \<or> is_nan y then NaN
      else if is_inf x \<or> is_inf y then
        (if is_zero x \<or> is_zero y then NaN else signed_inf (sign_bit x \<noteq> sign_bit y))
      else if is_zero x \<or> is_zero y then signed_zero (sign_bit x \<noteq> sign_bit y)
      else rnd (fp_real x * fp_real y))"

definition fp_mul :: "fp \<Rightarrow> fp \<Rightarrow> fp" where
  "fp_mul = fp_times round_double"

definition fp_mulf :: "fp \<Rightarrow> fp \<Rightarrow> fp" where
  "fp_mulf = fp_times round_float"

definition fp_div :: "fp \<Rightarrow> fp \<Rightarrow> fp" where
  "fp_div x y =
     (if is_nan x \<or> is_nan y then NaN
      else if is_inf x then (if is_inf y then NaN else signed_inf (sign_bit x \<noteq> sign_bit y))
      else if is_inf y then signed_zero (sign_bit x \<noteq> sign_bit y)
      else if is_zero y then
        (if is_zero x then NaN else signed_inf (sign_bit x \<noteq> sign_bit y))
      else if is_zero x then signed_zero (sign_bit x \<noteq> sign_bit y)
      else round_double (fp_real x / fp_real y))"

fun fp_lt :: "fp \<Rightarrow> fp \<Rightarrow> bool" where
  "fp_lt NaN y = False"
| "fp_lt x NaN = False"
| "fp_lt x NInf = False"
| "fp_lt PInf y = False"
| "fp_lt NInf y = True"
| "fp_lt x PInf = True"
| "fp_lt x y = (fp_real x < fp_real y)"

fun fp_le :: "fp \<Rightarrow> fp \<Rightarrow> bool" where
  "fp_le NaN y = False"
| "fp_le x NaN = False"
| "fp_le NInf y = True"
| "fp_le x PInf = True"
| "fp_le x NInf = False"
| "fp_le PInf y = False"
| "fp_le x y = (fp_real x \<le> fp_real y)"

definition fp_gt :: "fp \<Rightarrow> fp \<Rightarrow> bool" where
  "fp_gt x y = fp_lt y x"

definition fp_ge :: "fp \<Rightarrow> fp \<Rightarrow> bool" where
  "fp_ge x y = fp_le y x"

section \<open>Data model\<close>

text \<open>
  \<^verbatim>\<open>FreqSchedulerError\<close> is declared in \<^verbatim>\<open>freq_scheduler.h\<close>; the source tests a
  returned code against 0, which is \<open>freq_scheduler_error_ok\<close>.
\<close>

datatype FreqSchedulerError =
    freq_scheduler_error_ok
  | freq_scheduler_error_memory
  | freq_scheduler_error_invalid_path
  | freq_scheduler_error_internal

text \<open>
  Modelled from the spec: the \<^verbatim>\<open>Error\<close> record of \<^verbatim>\<open>util.h\<close> ("a last-error record with a
  chained message"), with \<^verbatim>\<open>error_set\<close> storing a code and a first message and
  \<^verbatim>\<open>error_add\<close> chaining a further one. A message is a \<^verbatim>\<open>char *\<close>; \<open>None\<close> is the NULL
  pointer.
\<close>

record Error =
  code :: FreqSchedulerError
  message :: "string option list"

definition error_set :: "Error \<Rightarrow> FreqSchedulerError \<Rightarrow> string option \<Rightarrow> Error" where
  "error_set e c m = e\<lparr>code := c, message := [m]\<rparr>"

definition error_add :: "Error \<Rightarrow> string option \<Rightarrow> Error" where
  "error_add e m = e\<lparr>message := message e @ [m]\<rparr>"

text \<open>The key of the \<^verbatim>\<open>schedule\<close> table and the table itself: the entries in key order.\<close>

record ScheduleKey =
  score :: fp
  hash :: "64 word"

type_synonym schedule_table = "(ScheduleKey \<times> fp) list"

text \<open>
  Modelled from the spec: \<^verbatim>\<open>PageInfo\<close> of the page database, which "exposes \<^verbatim>\<open>url\<close>,
  \<^verbatim>\<open>last_crawl\<close> (seconds since epoch), \<^verbatim>\<open>n_crawls\<close>, \<^verbatim>\<open>is_seed\<close>, \<^verbatim>\<open>rate()\<close>"; the fields
  \<open>is_seed\<close> and \<open>rate\<close> stand for \<^verbatim>\<open>page_info_is_seed(pi)\<close> and \<^verbatim>\<open>page_info_rate(pi)\<close>.
\<close>

record PageInfo =
  url :: string
  last_crawl :: fp
  n_crawls :: nat
  is_seed :: bool
  rate :: fp

text \<open>An element of the frequency array read by \<^verbatim>\<open>freq_scheduler_load_mmap\<close>.\<close>

record PageFreq =
  pf_hash :: "64 word"
  pf_freq :: fp

datatype StreamState = stream_state_next | stream_state_end | stream_state_error

text \<open>
  The scheduler instance. \<open>schedule\<close> is the committed content of the LMDB table
  \<^verbatim>\<open>"schedule"\<close> owned by the instance's transaction manager.
\<close>

record FreqScheduler =
  error :: Error
  margin :: fp
  max_n_crawls :: nat
  schedule :: schedule_table

text \<open>
  What the collaborators answer during one call: the return codes of the transaction
  manager, of LMDB, of the page database and of the request list, and the clock. The
  fields that take a number are asked once per loop iteration, with the iteration's index.
  A return code 0 is success.
\<close>

record Env =
  txn_manager_begin_rc :: int
  txn_manager_commit_rc :: int
  txn_manager_expand_rc :: int
  txn_manager_message :: "string option"
  mdb_dbi_open_rc :: int
  mdb_set_compare_rc :: int
  mdb_cursor_open_rc :: int
  mdb_cursor_get_rc :: "nat \<Rightarrow> int"
  mdb_cursor_del_rc :: "nat \<Rightarrow> int"
  mdb_cursor_put_rc :: "nat \<Rightarrow> int"
  mdb_strerror :: "int \<Rightarrow> string option"
  page_db_get_info :: "64 word \<Rightarrow> int \<times> PageInfo option"
  page_db_add_rc :: int
  page_db_message :: "string option"
  hashinfo_stream_new_rc :: int
  hashinfo_stream_is_null :: bool
  hashinfo_stream :: "(64 word \<times> PageInfo) list"
  hashinfo_stream_last :: StreamState
  page_request_new_ok :: bool
  page_request_add_url_rc :: "nat \<Rightarrow> int"
  time_now :: "nat \<Rightarrow> int"

section \<open>The ordered store\<close>

text \<open>
  Modelled from the spec: the comparator \<^verbatim>\<open>schedule_entry_mdb_cmp_asc\<close> of
  \<^verbatim>\<open>scheduler.h\<close>, "lexicographic by (score ascending, hash ascending)".
\<close>

definition schedule_entry_mdb_cmp_asc :: "ScheduleKey \<Rightarrow> ScheduleKey \<Rightarrow> int" where
  "schedule_entry_mdb_cmp_asc a b =
     (if fp_lt (score a) (score b) then - 1
      else if fp_lt (score b) (score a) then 1
      else if hash a < hash b then - 1
      else if hash b < hash a then 1
      else 0)"

text \<open>
  LMDB on a table kept in comparator order. \<^verbatim>\<open>mdb_cursor_put\<close> with flags 0 inserts the
  key at its place, or replaces the data of the entry whose key compares equal;
  \<^verbatim>\<open>mdb_cursor_get\<close> with \<^verbatim>\<open>MDB_FIRST\<close> reads the first entry; \<^verbatim>\<open>mdb_cursor_del\<close> removes
  the entry the cursor stands on, here always the first.
\<close>

fun mdb_put :: "ScheduleKey \<Rightarrow> fp \<Rightarrow> schedule_table \<Rightarrow> schedule_table" where
  "mdb_put k v [] = [(k, v)]"
| "mdb_put k v ((k', v') # es) =
     (if schedule_entry_mdb_cmp_asc k k' < 0 then (k, v) # (k', v') # es
      else if schedule_entry_mdb_cmp_asc k k' = 0 then (k', v) # es
      else (k', v') # mdb_put k v es)"

datatype mdb_get = Found ScheduleKey fp | NotFound | GetFailed int

definition MDB_NOTFOUND :: int where
  "MDB_NOTFOUND = - 30798"

definition mdb_get_first :: "Env \<Rightarrow> nat \<Rightarrow> schedule_table \<Rightarrow> mdb_get" where
  "mdb_get_first env i cur =
     (if mdb_cursor_get_rc env i = 0 then
        (case cur of [] \<Rightarrow> NotFound | (k, v) # es \<Rightarrow> Found k v)
      else if mdb_cursor_get_rc env i = MDB_NOTFOUND then NotFound
      else GetFailed (mdb_cursor_get_rc env i))"

definition mdb_del_first :: "schedule_table \<Rightarrow> schedule_table" where
  "mdb_del_first cur = tl cur"

section \<open>Errors and cursors\<close>

definition freq_scheduler_set_error ::
  "FreqScheduler \<Rightarrow> FreqSchedulerError \<Rightarrow> string option \<Rightarrow> FreqScheduler" where
  "freq_scheduler_set_error sch c m = sch\<lparr>error := error_set (error sch) c m\<rparr>"

definition freq_scheduler_add_error :: "FreqScheduler \<Rightarrow> string option \<Rightarrow> FreqScheduler" where
  "freq_scheduler_add_error sch m = sch\<lparr>error := error_add (error sch) m\<rparr>"

text \<open>
  \<^verbatim>\<open>freq_scheduler_cursor_open\<close> returns the code, the cursor and the instance. The cursor
  is the transaction's working copy of the table; \<open>None\<close> is the NULL pointer. When one
  of the three LMDB calls fails the cursor is set to NULL and the function falls through
  to \<^verbatim>\<open>return sch->error->code\<close>: the two messages are assigned and never recorded.
\<close>

definition freq_scheduler_cursor_open ::
  "Env \<Rightarrow> FreqScheduler \<Rightarrow> FreqSchedulerError \<times> schedule_table option \<times> FreqScheduler" where
  "freq_scheduler_cursor_open env sch =
     (if txn_manager_begin_rc env \<noteq> 0 then
        (let sch1 = freq_scheduler_set_error sch freq_scheduler_error_internal
                      (Some ''freq_scheduler_cursor_open'');
             sch2 = freq_scheduler_add_error sch1 (Some ''starting transaction'');
             sch3 = freq_scheduler_add_error sch2 (txn_manager_message env)
         in (code (error sch3), None, sch3))
      else
        (let mdb_rc = (if mdb_dbi_open_rc env \<noteq> 0 \<or> mdb_set_compare_rc env \<noteq> 0
                          \<or> mdb_cursor_open_rc env \<noteq> 0 then 1 else 0 :: int)
         in if mdb_rc \<noteq> 0 then (code (error sch), None, sch)
            else (code (error sch), Some (schedule sch), sch)))"

definition freq_scheduler_cursor_commit ::
  "Env \<Rightarrow> FreqScheduler \<Rightarrow> schedule_table \<Rightarrow> FreqSchedulerError \<times> FreqScheduler" where
  "freq_scheduler_cursor_commit env sch cur =
     (if txn_manager_commit_rc env \<noteq> 0 then
        (let sch1 = freq_scheduler_set_error sch freq_scheduler_error_internal
                      (Some ''freq_scheduler_cursor_commit'');
             sch2 = freq_scheduler_add_error sch1 (Some ''commiting schedule transaction'');
             sch3 = freq_scheduler_add_error sch2 (txn_manager_message env)
         in (code (error sch3), sch3))
      else (code (error sch), sch\<lparr>schedule := cur\<rparr>))"

text \<open>
  The block every operation jumps to at \<^verbatim>\<open>on_error\<close>: the transaction is aborted (its
  working copy of the table is dropped, the committed table stays), and the error is
  recorded under the operation's name with the two messages.
\<close>

type_synonym failure = "string option \<times> string option"

definition on_error :: "FreqScheduler \<Rightarrow> string \<Rightarrow> failure \<Rightarrow> FreqScheduler" where
  "on_error sch func f =
     freq_scheduler_add_error
       (freq_scheduler_add_error
          (freq_scheduler_set_error sch freq_scheduler_error_internal (Some func))
          (fst f))
       (snd f)"

section \<open>Loaders\<close>

definition freq_scheduler_cursor_write ::
  "Env \<Rightarrow> FreqScheduler \<Rightarrow> nat \<Rightarrow> schedule_table \<Rightarrow> 64 word \<Rightarrow> fp
     \<Rightarrow> FreqSchedulerError \<times> schedule_table \<times> FreqScheduler" where
  "freq_scheduler_cursor_write env sch i cur h freq =
     (if fp_le freq (Fin 0) then (freq_scheduler_error_ok, cur, sch)
      else if mdb_cursor_put_rc env i \<noteq> 0 then
        (let sch1 = freq_scheduler_set_error sch freq_scheduler_error_internal
                      (Some ''freq_scheduler_cursor_write'');
             sch2 = freq_scheduler_add_error sch1 (Some ''adding page to schedule'');
             sch3 = freq_scheduler_add_error sch2 (mdb_strerror env (mdb_cursor_put_rc env i))
         in (code (error sch3), cur, sch3))
      else (code (error sch), mdb_put \<lparr>score = Fin 0, hash = h\<rparr> freq cur, sch))"

text \<open>
  The loop of \<^verbatim>\<open>freq_scheduler_load_simple\<close> over the pages the stream delivers; the
  first component of the result says that the loop left through \<^verbatim>\<open>goto on_error\<close>.
\<close>

fun load_simple_loop ::
  "Env \<Rightarrow> fp \<Rightarrow> fp \<Rightarrow> (64 word \<times> PageInfo) list \<Rightarrow> nat \<Rightarrow> FreqScheduler \<Rightarrow> schedule_table
     \<Rightarrow> bool \<times> FreqScheduler \<times> schedule_table" where
  "load_simple_loop env freq_default freq_scale [] i sch cur = (False, sch, cur)"
| "load_simple_loop env freq_default freq_scale ((h, p) # rest) i sch cur =
     (if 0 < n_crawls p
         \<and> (max_n_crawls sch = 0 \<or> n_crawls p < max_n_crawls sch)
         \<and> \<not> is_seed p
      then
        (let freq = (if fp_gt freq_scale (Fin 0) \<and> fp_gt (rate p) (Fin 0)
                     then fp_mulf freq_scale (rate p) else freq_default)
         in case freq_scheduler_cursor_write env sch i cur h freq of
              (c, cur', sch') \<Rightarrow>
                if c \<noteq> freq_scheduler_error_ok then (True, sch', cur')
                else load_simple_loop env freq_default freq_scale rest (Suc i) sch' cur')
      else load_simple_loop env freq_default freq_scale rest (Suc i) sch cur)"

text \<open>
  An operation returns \<open>None\<close> where the source passes a NULL cursor, handed back by
  \<^verbatim>\<open>freq_scheduler_cursor_open\<close> together with the success code, on to LMDB or to the
  commit: the sources at hand do not define what that call does. In the load from the
  page database this happens at the first page the loop would write, and otherwise at the
  commit, unless the stream has ended in an error before.
\<close>

fun load_simple_null :: "FreqScheduler \<Rightarrow> fp \<Rightarrow> fp \<Rightarrow> (64 word \<times> PageInfo) list \<Rightarrow> bool" where
  "load_simple_null sch freq_default freq_scale [] = False"
| "load_simple_null sch freq_default freq_scale ((h, p) # rest) =
     (if 0 < n_crawls p
         \<and> (max_n_crawls sch = 0 \<or> n_crawls p < max_n_crawls sch)
         \<and> \<not> is_seed p
      then
        (let freq = (if fp_gt freq_scale (Fin 0) \<and> fp_gt (rate p) (Fin 0)
                     then fp_mulf freq_scale (rate p) else freq_default)
         in if fp_le freq (Fin 0) then load_simple_null sch freq_default freq_scale rest
            else True)
      else load_simple_null sch freq_default freq_scale rest)"

definition freq_scheduler_load_simple ::
  "Env \<Rightarrow> FreqScheduler \<Rightarrow> fp \<Rightarrow> fp \<Rightarrow> (FreqSchedulerError \<times> FreqScheduler) option" where
  "freq_scheduler_load_simple env sch freq_default freq_scale =
     (if hashinfo_stream_new_rc env \<noteq> 0 then
        (let sch' = on_error sch ''freq_scheduler_load_simple''
                      (Some ''creating stream'',
                       if hashinfo_stream_is_null env then Some ''NULL''
                       else page_db_message env)
         in Some (code (error sch'), sch'))
      else
        (case freq_scheduler_cursor_open env sch of
           (c, cursor, sch1) \<Rightarrow>
             if c \<noteq> freq_scheduler_error_ok then
               (let sch' = on_error sch1 ''freq_scheduler_load_simple'' (None, None)
                in Some (code (error sch'), sch'))
             else
               (case cursor of
                  None \<Rightarrow>
                    if load_simple_null sch1 freq_default freq_scale (hashinfo_stream env)
                    then None
                    else if hashinfo_stream_last env \<noteq> stream_state_end then
                      (let sch' = on_error sch1 ''freq_scheduler_load_simple''
                                    (Some ''incorrect stream state'', None)
                       in Some (code (error sch'), sch'))
                    else None
                | Some cur \<Rightarrow>
                    (case load_simple_loop env freq_default freq_scale
                            (hashinfo_stream env) 0 sch1 cur of
                       (failed, sch2, cur') \<Rightarrow>
                         if failed then
                           (let sch' = on_error sch2 ''freq_scheduler_load_simple'' (None, None)
                            in Some (code (error sch'), sch'))
                         else if hashinfo_stream_last env \<noteq> stream_state_end then
                           (let sch' = on_error sch2 ''freq_scheduler_load_simple''
                                         (Some ''incorrect stream state'', None)
                            in Some (code (error sch'), sch'))
                         else
                           (case freq_scheduler_cursor_commit env sch2 cur' of
                              (c', sch3) \<Rightarrow>
                                if c' \<noteq> freq_scheduler_error_ok then
                                  (let sch' = on_error sch3 ''freq_scheduler_load_simple''
                                                (None, None)
                                   in Some (code (error sch'), sch'))
                                else Some (code (error sch3), sch3))))))"

fun load_mmap_loop ::
  "Env \<Rightarrow> PageFreq list \<Rightarrow> nat \<Rightarrow> schedule_table \<Rightarrow> failure + schedule_table" where
  "load_mmap_loop env [] i cur = Inr cur"
| "load_mmap_loop env (f # rest) i cur =
     (if mdb_cursor_put_rc env i \<noteq> 0 then
        Inl (Some ''adding page to schedule'', mdb_strerror env (mdb_cursor_put_rc env i))
      else load_mmap_loop env rest (Suc i)
             (mdb_put \<lparr>score = fp_div (Fin 1) (pf_freq f), hash = pf_hash f\<rparr> (pf_freq f) cur))"

definition freq_scheduler_load_mmap ::
  "Env \<Rightarrow> FreqScheduler \<Rightarrow> PageFreq list \<Rightarrow> (FreqSchedulerError \<times> FreqScheduler) option" where
  "freq_scheduler_load_mmap env sch freqs =
     (if txn_manager_expand_rc env \<noteq> 0 then
        (let sch' = on_error sch ''freq_scheduler_load_mmap''
                      (Some ''resizing database'', txn_manager_message env)
         in Some (code (error sch'), sch'))
      else
        (case freq_scheduler_cursor_open env sch of
           (c, cursor, sch1) \<Rightarrow>
             if c \<noteq> freq_scheduler_error_ok then
               (let sch' = on_error sch1 ''freq_scheduler_load_mmap'' (None, None)
                in Some (code (error sch'), sch'))
             else
               (case cursor of
                  None \<Rightarrow> None
                | Some cur \<Rightarrow>
                    (case load_mmap_loop env freqs 0 cur of
                       Inl f \<Rightarrow>
                         (let sch' = on_error sch1 ''freq_scheduler_load_mmap'' f
                          in Some (code (error sch'), sch'))
                     | Inr cur' \<Rightarrow>
                         (case freq_scheduler_cursor_commit env sch1 cur' of
                            (c', sch3) \<Rightarrow>
                              if c' \<noteq> freq_scheduler_error_ok then
                                (let sch' = on_error sch3 ''freq_scheduler_load_mmap''
                                              (None, None)
                                 in Some (code (error sch'), sch'))
                              else Some (code (error sch3), sch3))))))"

section \<open>The request engine\<close>

text \<open>
  One pass through the body of the \<^verbatim>\<open>while\<close> loop of \<^verbatim>\<open>freq_scheduler_request\<close>, at
  iteration \<open>i\<close>, with the URLs added so far and the cursor's table. \<open>Inl\<close> is a jump
  to \<^verbatim>\<open>on_error\<close> with the two messages and the URLs the request list holds at that
  moment: when \<^verbatim>\<open>mdb_cursor_put\<close> fails, \<^verbatim>\<open>page_request_add_url\<close> has already added the
  URL of the head. \<open>Inr\<close> carries \<^verbatim>\<open>interrupt_requests\<close>, the URLs and the table after
  the pass. The clock reading \<^verbatim>\<open>difftime(time(0), 0)\<close> is a whole number of seconds,
  below \<open>2^53\<close>, which the conversion to \<^verbatim>\<open>double\<close> leaves as it is.
\<close>

definition request_iter ::
  "Env \<Rightarrow> FreqScheduler \<Rightarrow> nat \<Rightarrow> string list \<Rightarrow> schedule_table
     \<Rightarrow> (failure \<times> string list) + (bool \<times> string list \<times> schedule_table)" where
  "request_iter env sch i urls cur =
     (case mdb_get_first env i cur of
        Found sk freq \<Rightarrow>
          (case page_db_get_info env (hash sk) of
             (rc, pinfo) \<Rightarrow>
               if rc \<noteq> 0 then
                 Inl ((Some ''retrieving PageInfo from PageDB'', page_db_message env), urls)
               else
                 (case pinfo of
                    None \<Rightarrow>
                      if mdb_cursor_del_rc env i \<noteq> 0 then
                        Inl ((Some ''deleting head of schedule'',
                              mdb_strerror env (mdb_cursor_del_rc env i)), urls)
                      else Inr (False, urls, mdb_del_first cur)
                  | Some p \<Rightarrow>
                      (let elapsed = fp_sub (Fin (of_int (time_now env i))) (last_crawl p);
                           interrupt_requests =
                             (fp_ge (margin sch) (Fin 0)
                              \<and> fp_lt elapsed
                                   (fp_div (Fin 1) (fp_mul freq (fp_add (Fin 1) (margin sch)))));
                           crawl = (max_n_crawls sch = 0 \<or> n_crawls p < max_n_crawls sch)
                       in if \<not> interrupt_requests then
                            if mdb_cursor_del_rc env i \<noteq> 0 then
                              Inl ((Some ''deleting head of schedule'',
                                    mdb_strerror env (mdb_cursor_del_rc env i)), urls)
                            else if crawl then
                              if page_request_add_url_rc env i \<noteq> 0 then
                                Inl ((Some ''adding url to request'', None), urls)
                              else if mdb_cursor_put_rc env i \<noteq> 0 then
                                Inl ((Some ''moving element inside schedule'',
                                      mdb_strerror env (mdb_cursor_put_rc env i)),
                                     urls @ [url p])
                              else
                                Inr (False, urls @ [url p],
                                     mdb_put (sk\<lparr>score := fp_add (score sk) (fp_div (Fin 1) freq)\<rparr>)
                                       freq (mdb_del_first cur))
                            else Inr (False, urls, mdb_del_first cur)
                          else Inr (True, urls, cur))))
      | NotFound \<Rightarrow> Inr (True, urls, cur)
      | GetFailed mdb_rc \<Rightarrow>
          Inl ((Some ''getting head of schedule'', mdb_strerror env mdb_rc), urls))"

lemma length_mdb_put: "length (mdb_put k v es) \<le> Suc (length es)"
  by (induction es) auto

lemma request_iter_progress:
  assumes "request_iter env sch i urls cur = Inr (False, urls', cur')"
  shows "(length urls' = Suc (length urls) \<and> length cur' \<le> length cur)
         \<or> (urls' = urls \<and> length cur' < length cur)"
proof (cases cur)
  case Nil
  with assms show ?thesis
    by (auto simp: request_iter_def mdb_get_first_def split: if_splits)
next
  case (Cons e es)
  have "length (mdb_put k v es) \<le> length (e # es)" for k v
    using length_mdb_put [of k v es] by simp
  with assms Cons show ?thesis
    by (auto simp: request_iter_def mdb_get_first_def mdb_del_first_def Let_def
             split: if_splits prod.splits option.splits)
qed

function request_loop ::
  "Env \<Rightarrow> FreqScheduler \<Rightarrow> nat \<Rightarrow> nat \<Rightarrow> bool \<Rightarrow> string list \<Rightarrow> schedule_table
     \<Rightarrow> failure option \<times> string list \<times> schedule_table" where
  "request_loop env sch max_requests i interrupt_requests urls cur =
     (if length urls < max_requests \<and> \<not> interrupt_requests then
        (case request_iter env sch i urls cur of
           Inl (f, urls') \<Rightarrow> (Some f, urls', cur)
         | Inr (interrupt', urls', cur') \<Rightarrow>
             request_loop env sch max_requests (Suc i) interrupt' urls' cur')
      else (None, urls, cur))"
  by pat_completeness auto
termination
proof (relation "measure (\<lambda>(env, sch, max_requests, i, interrupt_requests, urls, cur).
          if interrupt_requests then 0 else Suc ((max_requests - length urls) + length cur))",
       goal_cases)
  case 1
  show ?case by simp
next
  case (2 env sch max_requests i interrupt_requests urls cur x2 interrupt' y urls' cur')
  then have r: "request_iter env sch i urls cur = Inr (interrupt', urls', cur')"
    by auto
  show ?case
  proof (cases interrupt')
    case True
    with 2(1) show ?thesis by simp
  next
    case False
    with r have "request_iter env sch i urls cur = Inr (False, urls', cur')" by simp
    from request_iter_progress [OF this] 2(1) False show ?thesis
      by auto
  qed
qed

declare request_loop.simps [simp del]

definition freq_scheduler_request ::
  "Env \<Rightarrow> FreqScheduler \<Rightarrow> nat
     \<Rightarrow> (FreqSchedulerError \<times> string list option \<times> FreqScheduler) option" where
  "freq_scheduler_request env sch max_requests =
     (case freq_scheduler_cursor_open env sch of
        (c, cursor, sch1) \<Rightarrow>
          if c \<noteq> freq_scheduler_error_ok then
            (let sch' = on_error sch1 ''freq_scheduler_request'' (None, None)
             in Some (code (error sch'), None, sch'))
          else if \<not> page_request_new_ok env then
            (let sch' = on_error sch1 ''freq_scheduler_request''
                          (Some ''allocating memory'', None)
             in Some (code (error sch'), None, sch'))
          else
            (case cursor of
               None \<Rightarrow> None
             | Some cur \<Rightarrow>
                 (case request_loop env sch1 max_requests 0 False [] cur of
                    (Some f, urls, cur') \<Rightarrow>
                      (let sch' = on_error sch1 ''freq_scheduler_request'' f
                       in Some (code (error sch'), Some urls, sch'))
                  | (None, urls, cur') \<Rightarrow>
                      (case freq_scheduler_cursor_commit env sch1 cur' of
                         (c', sch3) \<Rightarrow>
                           if c' \<noteq> freq_scheduler_error_ok then
                             (let sch' = on_error sch3 ''freq_scheduler_request'' (None, None)
                              in Some (code (error sch'), Some urls, sch'))
                           else Some (code (error sch3), Some urls, sch3)))))"

section \<open>Admitting a crawled page, and the dump\<close>

text \<open>
  \<^verbatim>\<open>freq_scheduler_add\<close> forwards the crawled page to the page database, whose content is
  not part of the scheduler's state; only the return code of \<^verbatim>\<open>page_db_add\<close> matters here.
\<close>

definition freq_scheduler_add :: "Env \<Rightarrow> FreqScheduler \<Rightarrow> FreqSchedulerError \<times> FreqScheduler" where
  "freq_scheduler_add env sch =
     (if page_db_add_rc env \<noteq> 0 then
        (let sch1 = freq_scheduler_set_error sch freq_scheduler_error_internal
                      (Some ''freq_scheduler_add'');
             sch2 = freq_scheduler_add_error sch1 (Some ''adding crawled page'');
             sch3 = freq_scheduler_add_error sch2 (page_db_message env)
         in (code (error sch3), sch3))
      else (code (error sch), sch))"

text \<open>
  The \<^verbatim>\<open>do\<close> loop of \<^verbatim>\<open>freq_scheduler_dump\<close>: iteration \<open>i\<close> reads the next entry, first
  with \<^verbatim>\<open>MDB_FIRST\<close> and then with \<^verbatim>\<open>MDB_NEXT\<close>. A printed line is kept as the triple of
  its score, hash and frequency.
\<close>

fun dump_loop ::
  "Env \<Rightarrow> nat \<Rightarrow> schedule_table \<Rightarrow> FreqScheduler \<Rightarrow> (fp \<times> 64 word \<times> fp) list
     \<Rightarrow> FreqScheduler \<times> (fp \<times> 64 word \<times> fp) list" where
  "dump_loop env i [] sch out =
     (if mdb_cursor_get_rc env i = 0 \<or> mdb_cursor_get_rc env i = MDB_NOTFOUND then (sch, out)
      else
        (let sch1 = freq_scheduler_set_error sch freq_scheduler_error_internal
                      (Some ''freq_scheduler_dump'');
             sch2 = freq_scheduler_add_error sch1 (Some ''iterating over database'');
             sch3 = freq_scheduler_add_error sch2 (mdb_strerror env (mdb_cursor_get_rc env i))
         in (sch3, out)))"
| "dump_loop env i ((k, v) # es) sch out =
     (if mdb_cursor_get_rc env i = 0 then
        dump_loop env (Suc i) es sch (out @ [(score k, hash k, v)])
      else if mdb_cursor_get_rc env i = MDB_NOTFOUND then (sch, out)
      else
        (let sch1 = freq_scheduler_set_error sch freq_scheduler_error_internal
                      (Some ''freq_scheduler_dump'');
             sch2 = freq_scheduler_add_error sch1 (Some ''iterating over database'');
             sch3 = freq_scheduler_add_error sch2 (mdb_strerror env (mdb_cursor_get_rc env i))
         in (sch3, out)))"

definition freq_scheduler_dump ::
  "Env \<Rightarrow> FreqScheduler
     \<Rightarrow> (FreqSchedulerError \<times> (fp \<times> 64 word \<times> fp) list \<times> FreqScheduler) option" where
  "freq_scheduler_dump env sch =
     (case freq_scheduler_cursor_open env sch of
        (c, cursor, sch1) \<Rightarrow>
          if c \<noteq> freq_scheduler_error_ok then Some (code (error sch1), [], sch1)
          else
            (case cursor of
               None \<Rightarrow> None
             | Some cur \<Rightarrow>
                 (case dump_loop env 0 cur sch1 [] of
                    (sch2, out) \<Rightarrow> Some (code (error sch2), out, sch2))))"

section \<open>The properties, in the words of the spec\<close>

text \<open>The hashes of a table, in key order, one per entry.\<close>

definition hashes :: "schedule_table \<Rightarrow> 64 word list" where
  "hashes t = map (\<lambda>e. hash (fst e)) t"

text \<open>The scores stored for a hash, in key order.\<close>

definition scores_of :: "64 word \<Rightarrow> schedule_table \<Rightarrow> fp list" where
  "scores_of h t = map (\<lambda>e. score (fst e)) (filter (\<lambda>e. hash (fst e) = h) t)"

text \<open>
  The first invariant of the spec for one entry: "freq > 0, score >= 0, score not NaN".
\<close>

definition entry_ok :: "ScheduleKey \<times> fp \<Rightarrow> bool" where
  "entry_ok e \<longleftrightarrow>
     fp_gt (snd e) (Fin 0) \<and> fp_ge (score (fst e)) (Fin 0) \<and> \<not> is_nan (score (fst e))"

text \<open>
  In the spec's words: \<open>crawl\<close> is "(max_n_crawls == 0) OR (n_crawls < max_n_crawls)", false
  when the page is missing; the head is throttled when the page exists, the margin is at
  least 0 and the time since the last crawl is below 1/(freq*(1+margin)).
\<close>

definition crawl :: "FreqScheduler \<Rightarrow> PageInfo option \<Rightarrow> bool" where
  "crawl sch pinfo =
     (case pinfo of None \<Rightarrow> False
      | Some p \<Rightarrow> max_n_crawls sch = 0 \<or> n_crawls p < max_n_crawls sch)"

definition throttled :: "Env \<Rightarrow> FreqScheduler \<Rightarrow> nat \<Rightarrow> fp \<Rightarrow> PageInfo option \<Rightarrow> bool" where
  "throttled env sch i freq pinfo =
     (case pinfo of None \<Rightarrow> False
      | Some p \<Rightarrow>
          fp_ge (margin sch) (Fin 0)
          \<and> fp_lt (fp_sub (Fin (of_int (time_now env i))) (last_crawl p))
                (fp_div (Fin 1) (fp_mul freq (fp_add (Fin 1) (margin sch)))))"

text \<open>
  The score \<open>s\<close> after \<open>n\<close> turns at frequency \<open>f\<close>: \<^verbatim>\<open>sk.score += 1.0/freq\<close>, \<open>n\<close> times.
\<close>

definition advance :: "nat \<Rightarrow> fp \<Rightarrow> fp \<Rightarrow> fp" where
  "advance n s f = ((\<lambda>x. fp_add x (fp_div (Fin 1) f)) ^^ n) s"

text \<open>Pages of different hashes have different URLs.\<close>

definition urls_identify_pages :: "Env \<Rightarrow> bool" where
  "urls_identify_pages env \<longleftrightarrow>
     (\<forall>h h' p p'. page_db_get_info env h = (0, Some p) \<and> page_db_get_info env h' = (0, Some p')
        \<and> url p = url p' \<longrightarrow> h = h')"

text \<open>
  The entry of a live page (present in the page database, below the crawl cap) that
  started the call as \<open>(k0, f)\<close>, after the URLs \<open>urls\<close> have been emitted.
\<close>

definition advanced_entry :: "string list \<Rightarrow> ScheduleKey \<Rightarrow> fp \<Rightarrow> PageInfo \<Rightarrow> ScheduleKey \<times> fp" where
  "advanced_entry urls k0 f p =
     (\<lparr>score = advance (count_list urls (url p)) (score k0) f, hash = hash k0\<rparr>, f)"

text \<open>
  In the spec's words: the pages \<^verbatim>\<open>load_from_pagedb\<close> takes, the frequency it gives
  them, and the table after the load.
\<close>

definition load_eligible :: "FreqScheduler \<Rightarrow> PageInfo \<Rightarrow> bool" where
  "load_eligible sch p \<longleftrightarrow>
     0 < n_crawls p \<and> (max_n_crawls sch = 0 \<or> n_crawls p < max_n_crawls sch) \<and> \<not> is_seed p"

definition load_freq :: "fp \<Rightarrow> fp \<Rightarrow> PageInfo \<Rightarrow> fp" where
  "load_freq freq_default freq_scale p =
     (if fp_gt freq_scale (Fin 0) \<and> fp_gt (rate p) (Fin 0) then fp_mulf freq_scale (rate p)
      else freq_default)"

fun load_from_pagedb ::
  "FreqScheduler \<Rightarrow> fp \<Rightarrow> fp \<Rightarrow> (64 word \<times> PageInfo) list \<Rightarrow> schedule_table \<Rightarrow> schedule_table" where
  "load_from_pagedb sch freq_default freq_scale [] t = t"
| "load_from_pagedb sch freq_default freq_scale ((h, p) # pages) t =
     load_from_pagedb sch freq_default freq_scale pages
       (if load_eligible sch p \<and> fp_gt (load_freq freq_default freq_scale p) (Fin 0)
        then mdb_put \<lparr>score = Fin 0, hash = h\<rparr> (load_freq freq_default freq_scale p) t
        else t)"

text \<open>
  The table is in key order, as LMDB keeps it under the comparator, and the scores of a
  table are all zero, as they are as long as only \<^verbatim>\<open>freq_scheduler_cursor_write\<close> has
  written to it.
\<close>

definition in_key_order :: "schedule_table \<Rightarrow> bool" where
  "in_key_order t \<longleftrightarrow>
     sorted_wrt (\<lambda>a b. schedule_entry_mdb_cmp_asc (fst a) (fst b) < 0) t"

definition zero_scores :: "schedule_table \<Rightarrow> bool" where
  "zero_scores t \<longleftrightarrow> (\<forall>e \<in> set t. is_zero (score (fst e)))"

text \<open>
  The transaction can be opened and committed: the transaction manager and the three
  LMDB calls of \<^verbatim>\<open>freq_scheduler_cursor_open\<close> succeed.
\<close>

definition txn_works :: "Env \<Rightarrow> bool" where
  "txn_works env \<longleftrightarrow>
     txn_manager_begin_rc env = 0 \<and> mdb_dbi_open_rc env = 0 \<and> mdb_set_compare_rc env = 0
     \<and> mdb_cursor_open_rc env = 0 \<and> txn_manager_commit_rc env = 0"

text \<open>
  Nothing fails in an operation: every call to the transaction manager, to LMDB, to the
  page database, to the stream and to the request list succeeds.
\<close>

definition nothing_fails :: "Env \<Rightarrow> bool" where
  "nothing_fails env \<longleftrightarrow>
     txn_works env \<and> txn_manager_expand_rc env = 0
     \<and> (\<forall>i. mdb_cursor_get_rc env i = 0) \<and> (\<forall>i. mdb_cursor_del_rc env i = 0)
     \<and> (\<forall>i. mdb_cursor_put_rc env i = 0)
     \<and> (\<forall>h. fst (page_db_get_info env h) = 0) \<and> page_db_add_rc env = 0
     \<and> hashinfo_stream_new_rc env = 0 \<and> hashinfo_stream_last env = stream_state_end
     \<and> page_request_new_ok env \<and> (\<forall>i. page_request_add_url_rc env i = 0)"

section \<open>Scenarios\<close>

text \<open>
  The environment in which no collaborator fails: every return code is 0, the page
  database answers from \<open>db\<close>, the stream delivers \<open>pages\<close> and ends, and the clock reads
  \<open>now\<close>.
\<close>

definition env_ok :: "(64 word \<Rightarrow> PageInfo option) \<Rightarrow> (64 word \<times> PageInfo) list \<Rightarrow> int \<Rightarrow> Env" where
  "env_ok db pages now =
     \<lparr>txn_manager_begin_rc = 0, txn_manager_commit_rc = 0, txn_manager_expand_rc = 0,
      txn_manager_message = None,
      mdb_dbi_open_rc = 0, mdb_set_compare_rc = 0, mdb_cursor_open_rc = 0,
      mdb_cursor_get_rc = (\<lambda>i. 0), mdb_cursor_del_rc = (\<lambda>i. 0), mdb_cursor_put_rc = (\<lambda>i. 0),
      mdb_strerror = (\<lambda>rc. None),
      page_db_get_info = (\<lambda>h. (0, db h)), page_db_add_rc = 0, page_db_message = None,
      hashinfo_stream_new_rc = 0, hashinfo_stream_is_null = False,
      hashinfo_stream = pages, hashinfo_stream_last = stream_state_end,
      page_request_new_ok = True, page_request_add_url_rc = (\<lambda>i. 0),
      time_now = (\<lambda>i. now)\<rparr>"

definition no_error :: Error where
  "no_error = \<lparr>code = freq_scheduler_error_ok, message = []\<rparr>"

text \<open>
  The instance \<^verbatim>\<open>freq_scheduler_new\<close> hands back on an empty directory: no error
  recorded, the throttle disabled (margin -1.0), no crawl cap, an empty schedule.
\<close>

definition fresh_scheduler :: FreqScheduler where
  "fresh_scheduler =
     \<lparr>error = no_error, margin = Fin (- 1), max_n_crawls = 0, schedule = []\<rparr>"

text \<open>The error record a failed \<^verbatim>\<open>freq_scheduler_add\<close> leaves behind.\<close>

definition stale_error :: Error where
  "stale_error =
     \<lparr>code = freq_scheduler_error_internal,
      message = [Some ''freq_scheduler_add'', Some ''adding crawled page'', None]\<rparr>"

text \<open>
  A crawled page that is not a seed, with its URL, the time of its last crawl and its
  number of crawls.
\<close>

definition page :: "string \<Rightarrow> fp \<Rightarrow> nat \<Rightarrow> PageInfo" where
  "page u t n = \<lparr>url = u, last_crawl = t, n_crawls = n, is_seed = False, rate = Fin 1\<rparr>"

text \<open>Scenario "two pages": hash 1 at frequency 2 and hash 2 at frequency 1, both at score 0.\<close>

definition two_pages_db :: "PageInfo \<Rightarrow> PageInfo \<Rightarrow> 64 word \<Rightarrow> PageInfo option" where
  "two_pages_db p1 p2 h = (if h = 1 then Some p1 else if h = 2 then Some p2 else None)"

definition two_pages_table :: schedule_table where
  "two_pages_table =
     [(\<lparr>score = Fin 0, hash = 1\<rparr>, Fin 2), (\<lparr>score = Fin 0, hash = 2\<rparr>, Fin 1)]"

text \<open>
  Scenario "throttle blocks head": one page, hash 7 at frequency 1, last crawled half a
  second before the clock reading 1000.
\<close>

definition throttled_table :: schedule_table where
  "throttled_table = [(\<lparr>score = Fin 0, hash = 7\<rparr>, Fin 1)]"

definition throttled_db :: "64 word \<Rightarrow> PageInfo option" where
  "throttled_db h = (if h = 7 then Some (page ''u7'' (Fin (1999 / 2)) 1) else None)"

text \<open>
  A table in which hash 1 has two entries, as a second load leaves it once a request has
  advanced the first, and a page database in which hash 1 has reached its crawl cap.
\<close>

definition capped_table :: schedule_table where
  "capped_table =
     [(\<lparr>score = Fin 0, hash = 1\<rparr>, Fin 1), (\<lparr>score = Fin 0, hash = 2\<rparr>, Fin 1),
      (\<lparr>score = Fin 1, hash = 1\<rparr>, Fin 1)]"

text \<open>Scenario "cap retires page": hash 9 has reached the cap of three crawls.\<close>

definition retired_db :: "64 word \<Rightarrow> PageInfo option" where
  "retired_db h = (if h = 9 then Some (page ''u9'' (Fin 0) 3) else None)"

text \<open>
  Scenario "repeated load": two crawled pages, loaded from the page database at the
  default frequency 1 with a cap of two crawls.
\<close>

definition reload_pages :: "(64 word \<times> PageInfo) list" where
  "reload_pages = [(1, page ''u1'' (Fin 0) 1), (2, page ''u2'' (Fin 0) 1)]"

definition reload_env :: Env where
  "reload_env =
     env_ok (two_pages_db (page ''u1'' (Fin 0) 1) (page ''u2'' (Fin 0) 1)) reload_pages 0"

definition reload_sch :: "schedule_table \<Rightarrow> FreqScheduler" where
  "reload_sch t = fresh_scheduler\<lparr>max_n_crawls := 2, schedule := t\<rparr>"

text \<open>
  Scenario "load from an array": hash 1 at frequency 2 and hash 2 at frequency 1.
\<close>

definition two_freqs :: "PageFreq list" where
  "two_freqs = [\<lparr>pf_hash = 1, pf_freq = Fin 2\<rparr>, \<lparr>pf_hash = 2, pf_freq = Fin 1\<rparr>]"

section \<open>Facts about floating-point values\<close>

lemmas fp_round_eval =
  round_double_def round_float_def fp_round_def ilog2_def nlog2.simps pow2_def round_even_def
  Let_def

lemmas fp_eval =
  fp_add_def fp_sub_def fp_div_def fp_mul_def fp_mulf_def fp_times_def signed_zero_def
  signed_inf_def fp_round_eval

lemma pow2_pos: "0 < pow2 e"
  by (simp add: pow2_def)

lemma round_even_nonneg: "0 \<le> r \<Longrightarrow> 0 \<le> round_even r"
  by (simp add: round_even_def Let_def)

lemma fp_round_not_nan: "\<not> is_nan (fp_round p emax x)"
  by (simp add: fp_round_def Let_def)

lemma fp_round_nonneg: "0 \<le> x \<Longrightarrow> fp_ge (fp_round p emax x) (Fin 0)"
proof -
  assume x: "0 \<le> x"
  have "0 \<le> real_of_int (round_even (x / pow2 e)) * pow2 e" for e
    using round_even_nonneg [of "x / pow2 e"] pow2_pos [of e] x by simp
  with x show ?thesis
    by (auto simp: fp_round_def Let_def fp_ge_def)
qed

lemma fp_zero_not_lt: "is_zero x \<Longrightarrow> is_zero y \<Longrightarrow> \<not> fp_lt x y"
  by (cases x; cases y) auto

lemma fp_lt_not_ge: "fp_lt x (Fin 0) \<Longrightarrow> \<not> fp_ge x (Fin 0)"
  by (cases x) (auto simp: fp_ge_def)

lemma fp_ge_not_nan: "fp_ge x (Fin 0) \<Longrightarrow> \<not> is_nan x"
  by (cases x) (auto simp: fp_ge_def)

lemma fp_not_le_iff_gt: "\<not> is_nan x \<Longrightarrow> (\<not> fp_le x (Fin 0)) = fp_gt x (Fin 0)"
  by (cases x) (auto simp: fp_gt_def)

lemma fp_mulf_pos_not_nan:
  "fp_gt a (Fin 0) \<Longrightarrow> fp_gt b (Fin 0) \<Longrightarrow> \<not> is_nan (fp_mulf a b)"
  by (cases a; cases b)
     (auto simp: fp_gt_def fp_mulf_def fp_times_def round_float_def fp_round_not_nan
        signed_inf_def signed_zero_def)

lemma fp_div_pos: "fp_gt f (Fin 0) \<Longrightarrow> fp_ge (fp_div (Fin 1) f) (Fin 0)"
  using fp_round_nonneg [of "1 / fp_real f" 53 1023]
  by (cases f) (auto simp: fp_gt_def fp_ge_def fp_div_def signed_zero_def round_double_def)

lemma fp_add_nonneg:
  "fp_ge s (Fin 0) \<Longrightarrow> fp_ge d (Fin 0) \<Longrightarrow> fp_ge (fp_add s d) (Fin 0)"
  using fp_round_nonneg [of "fp_real s + fp_real d" 53 1023]
  by (cases s; cases d) (auto simp: fp_ge_def fp_add_def round_double_def)

lemma advance_0 [simp]: "advance 0 s f = s"
  by (simp add: advance_def)

lemma advance_Suc [simp]: "advance (Suc n) s f = fp_add (advance n s f) (fp_div (Fin 1) f)"
  by (simp add: advance_def)

lemma advance_score_ok:
  assumes "fp_ge s (Fin 0)" "fp_gt f (Fin 0)"
  shows "fp_ge (fp_add s (fp_div (Fin 1) f)) (Fin 0)"
  using assms by (intro fp_add_nonneg fp_div_pos)

text \<open>The sums and quotients of the scenarios: all of them exact but 1/5.\<close>

lemma fp_div_1_1: "fp_div (Fin 1) (Fin 1) = Fin 1"
  by (simp add: fp_eval)

lemma fp_div_1_2: "fp_div (Fin 1) (Fin 2) = Fin (1 / 2)"
  by (simp add: fp_eval)

lemma fp_div_1_5: "fp_div (Fin 1) (Fin 5) = Fin (3602879701896397 / 18014398509481984)"
  by (simp add: fp_eval)

lemma fp_div_1_minus_1: "fp_div (Fin 1) (Fin (- 1)) = Fin (- 1)"
  by (simp add: fp_eval)

lemma fp_add_0_half: "fp_add (Fin 0) (Fin (1 / 2)) = Fin (1 / 2)"
  by (simp add: fp_eval)

lemma fp_add_half_half: "fp_add (Fin (1 / 2)) (Fin (1 / 2)) = Fin 1"
  by (simp add: fp_eval)

lemma fp_add_1_half: "fp_add (Fin 1) (Fin (1 / 2)) = Fin (3 / 2)"
  by (simp add: fp_eval)

lemma fp_add_3_halves_half: "fp_add (Fin (3 / 2)) (Fin (1 / 2)) = Fin 2"
  by (simp add: fp_eval)

lemma fp_add_0_1: "fp_add (Fin 0) (Fin 1) = Fin 1"
  by (simp add: fp_eval)

lemma fp_add_1_0: "fp_add (Fin 1) (Fin 0) = Fin 1"
  by (simp add: fp_eval)

lemma fp_add_1_1: "fp_add (Fin 1) (Fin 1) = Fin 2"
  by (simp add: fp_eval)

lemma fp_add_0_fifth:
  "fp_add (Fin 0) (Fin (3602879701896397 / 18014398509481984))
   = Fin (3602879701896397 / 18014398509481984)"
  by (simp add: fp_eval)

lemma fp_mul_1_1: "fp_mul (Fin 1) (Fin 1) = Fin 1"
  by (simp add: fp_eval)

lemma fp_sub_1000_last: "fp_sub (Fin 1000) (Fin (1999 / 2)) = Fin (1 / 2)"
  by (simp add: fp_eval)

lemmas fp_scenario =
  fp_div_1_1 fp_div_1_2 fp_div_1_5 fp_div_1_minus_1 fp_add_0_half fp_add_half_half
  fp_add_1_half fp_add_3_halves_half fp_add_0_1 fp_add_1_0 fp_add_1_1 fp_add_0_fifth
  fp_mul_1_1 fp_sub_1000_last

text \<open>
  Rounding at work: adding 1 to \<open>2^53\<close> changes nothing, a division by the negative zero
  gives the negative infinity, a \<^verbatim>\<open>float\<close> product can overflow, and nineteen additions of
  1.0/19 stay below 1.
\<close>

lemma fp_add_absorbs_one: "fp_add (Fin 9007199254740992) (Fin 1) = Fin 9007199254740992"
  by (simp add: fp_eval)

lemma fp_div_by_negative_zero: "fp_div (Fin 1) NZero = NInf"
  by (simp add: fp_eval)

lemma fp_mulf_overflows: "fp_mulf (Fin (2 ^ 100)) (Fin (2 ^ 100)) = PInf"
  by (simp add: fp_eval)

lemma nineteenth_sums:
  "fp_div (Fin 1) (Fin 19) = Fin (948126237341157 / 18014398509481984)"
  "fp_add (Fin 0) (Fin (948126237341157 / 18014398509481984))
     = Fin (948126237341157 / 18014398509481984)"
  "fp_add (Fin (948126237341157 / 18014398509481984)) (Fin (948126237341157 / 18014398509481984))
     = Fin (948126237341157 / 9007199254740992)"
  "fp_add (Fin (948126237341157 / 9007199254740992)) (Fin (948126237341157 / 18014398509481984))
     = Fin (2844378712023471 / 18014398509481984)"
  "fp_add (Fin (2844378712023471 / 18014398509481984)) (Fin (948126237341157 / 18014398509481984))
     = Fin (948126237341157 / 4503599627370496)"
  "fp_add (Fin (948126237341157 / 4503599627370496)) (Fin (948126237341157 / 18014398509481984))
     = Fin (4740631186705785 / 18014398509481984)"
  "fp_add (Fin (4740631186705785 / 18014398509481984)) (Fin (948126237341157 / 18014398509481984))
     = Fin (2844378712023471 / 9007199254740992)"
  "fp_add (Fin (2844378712023471 / 9007199254740992)) (Fin (948126237341157 / 18014398509481984))
     = Fin (6636883661388099 / 18014398509481984)"
  "fp_add (Fin (6636883661388099 / 18014398509481984)) (Fin (948126237341157 / 18014398509481984))
     = Fin (948126237341157 / 2251799813685248)"
  "fp_add (Fin (948126237341157 / 2251799813685248)) (Fin (948126237341157 / 18014398509481984))
     = Fin (8533136136070413 / 18014398509481984)"
  "fp_add (Fin (8533136136070413 / 18014398509481984)) (Fin (948126237341157 / 18014398509481984))
     = Fin (4740631186705785 / 9007199254740992)"
  "fp_add (Fin (4740631186705785 / 9007199254740992)) (Fin (948126237341157 / 18014398509481984))
     = Fin (1303673576344091 / 2251799813685248)"
  "fp_add (Fin (1303673576344091 / 2251799813685248)) (Fin (948126237341157 / 18014398509481984))
     = Fin (2844378712023471 / 4503599627370496)"
  "fp_add (Fin (2844378712023471 / 4503599627370496)) (Fin (948126237341157 / 18014398509481984))
     = Fin (385176283919845 / 562949953421312)"
  "fp_add (Fin (385176283919845 / 562949953421312)) (Fin (948126237341157 / 18014398509481984))
     = Fin (3318441830694049 / 4503599627370496)"
  "fp_add (Fin (3318441830694049 / 4503599627370496)) (Fin (948126237341157 / 18014398509481984))
     = Fin (1777736695014669 / 2251799813685248)"
  "fp_add (Fin (1777736695014669 / 2251799813685248)) (Fin (948126237341157 / 18014398509481984))
     = Fin (3792504949364627 / 4503599627370496)"
  "fp_add (Fin (3792504949364627 / 4503599627370496)) (Fin (948126237341157 / 18014398509481984))
     = Fin (1007384127174979 / 1125899906842624)"
  "fp_add (Fin (1007384127174979 / 1125899906842624)) (Fin (948126237341157 / 18014398509481984))
     = Fin (4266568068035205 / 4503599627370496)"
  "fp_add (Fin (4266568068035205 / 4503599627370496)) (Fin (948126237341157 / 18014398509481984))
     = Fin (2251799813685247 / 2251799813685248)"
  "fp_add (Fin (2251799813685247 / 2251799813685248)) (Fin (948126237341157 / 18014398509481984))
     = Fin (4740631186705783 / 4503599627370496)"
  by (simp_all add: fp_eval)

lemma nineteen: "(19::nat) = Suc (Suc (Suc (Suc (Suc (Suc (Suc (Suc (Suc (Suc (Suc (Suc (Suc (Suc (Suc (Suc (Suc (Suc (Suc 0))))))))))))))))))"
  by simp

lemma twenty: "(20::nat) = Suc 19"
  by simp

lemma advance_nineteenth:
  "advance 19 (Fin 0) (Fin 19) = Fin (2251799813685247 / 2251799813685248)"
  by (subst nineteen) (simp add: nineteenth_sums)

section \<open>Facts about the store\<close>

lemma cmp_zero_hash: "schedule_entry_mdb_cmp_asc k k' = 0 \<Longrightarrow> hash k' = hash k"
  by (auto simp: schedule_entry_mdb_cmp_asc_def split: if_splits)

text \<open>Between keys of score zero the comparator is the order of the hashes.\<close>

lemma cmp_zero_scores:
  assumes "is_zero (score a)" "is_zero (score b)"
  shows "(schedule_entry_mdb_cmp_asc a b < 0) = (hash a < hash b)"
    and "(schedule_entry_mdb_cmp_asc a b = 0) = (hash a = hash b)"
  using fp_zero_not_lt [OF assms] fp_zero_not_lt [OF assms(2,1)]
  by (auto simp: schedule_entry_mdb_cmp_asc_def)

text \<open>A put adds no key but its own.\<close>

lemma keys_mdb_put: "fst ` set (mdb_put k v es) \<subseteq> insert k (fst ` set es)"
proof (induction es)
  case Nil
  show ?case by simp
next
  case (Cons e es)
  obtain k' v' where e: "e = (k', v')" by (cases e)
  from Cons.IH show ?case by (auto simp: e rev_image_eqI)
qed

text \<open>
  A put of a key of score zero into a table of zero scores in key order keeps both, and
  such a table holds each hash once.
\<close>

lemma zero_scores_mdb_put:
  assumes "is_zero (score k)" "zero_scores es"
  shows "zero_scores (mdb_put k v es)"
  using assms keys_mdb_put [of k v es] unfolding zero_scores_def by fastforce

lemma in_key_order_mdb_put:
  assumes "is_zero (score k)" "zero_scores es" "in_key_order es"
  shows "in_key_order (mdb_put k v es)"
  using assms(2,3)
proof (induction es)
  case Nil
  show ?case by (simp add: in_key_order_def)
next
  case (Cons e es)
  obtain k' v' where e: "e = (k', v')" by (cases e)
  from Cons.prems have z': "is_zero (score k')" and zs: "zero_scores es"
    by (simp_all add: zero_scores_def e)
  from Cons.prems have o: "in_key_order es"
    and lt: "\<forall>x \<in> set es. schedule_entry_mdb_cmp_asc k' (fst x) < 0"
    by (simp_all add: in_key_order_def e)
  have zx: "is_zero (score (fst x))" if "x \<in> set es" for x
    using zs that by (simp add: zero_scores_def)
  have hl: "hash k' < hash (fst x)" if "x \<in> set es" for x
    using lt that cmp_zero_scores(1) [OF z' zx [OF that]] by simp
  consider "schedule_entry_mdb_cmp_asc k k' < 0"
    | "schedule_entry_mdb_cmp_asc k k' = 0"
    | "\<not> schedule_entry_mdb_cmp_asc k k' < 0" "schedule_entry_mdb_cmp_asc k k' \<noteq> 0"
    by blast
  then show ?case
  proof cases
    case 1
    then have h: "hash k < hash k'" using cmp_zero_scores(1) [OF assms(1) z'] by simp
    have "schedule_entry_mdb_cmp_asc k (fst x) < 0" if "x \<in> set es" for x
      using cmp_zero_scores(1) [OF assms(1) zx [OF that]] h hl [OF that] by auto
    with 1 lt o show ?thesis by (simp add: e in_key_order_def)
  next
    case 2
    with lt o show ?thesis by (simp add: e in_key_order_def)
  next
    case 3
    then have h: "hash k' < hash k"
      using cmp_zero_scores [OF assms(1) z'] by auto
    have "schedule_entry_mdb_cmp_asc k' (fst x) < 0" if "x \<in> set (mdb_put k v es)" for x
    proof -
      from that keys_mdb_put [of k v es] have "fst x = k \<or> fst x \<in> fst ` set es" by auto
      then show ?thesis
      proof
        assume "fst x = k"
        with h cmp_zero_scores(1) [OF z' assms(1)] show ?thesis by simp
      next
        assume "fst x \<in> fst ` set es"
        with lt show ?thesis by auto
      qed
    qed
    with 3 Cons.IH [OF zs o] show ?thesis by (simp add: e in_key_order_def)
  qed
qed

lemma in_key_order_zero_distinct:
  assumes "zero_scores t" "in_key_order t"
  shows "distinct (hashes t)"
proof -
  have "sorted_wrt (\<lambda>a b. hash (fst a) < hash (fst b)) t"
  proof (rule sorted_wrt_mono_rel [OF _ assms(2) [unfolded in_key_order_def]])
    fix x y
    assume "x \<in> set t" "y \<in> set t" "schedule_entry_mdb_cmp_asc (fst x) (fst y) < 0"
    with assms(1) cmp_zero_scores(1) [of "fst x" "fst y"]
    show "hash (fst x) < hash (fst y)" by (simp add: zero_scores_def)
  qed
  then have "sorted_wrt (<) (hashes t)" by (simp add: hashes_def sorted_wrt_map)
  then show ?thesis by (simp add: strict_sorted_iff)
qed

lemma set_hashes_mdb_put: "set (hashes (mdb_put k v es)) = insert (hash k) (set (hashes es))"
proof (induction es)
  case Nil
  show ?case by (simp add: hashes_def)
next
  case (Cons e es)
  obtain k' v' where e: "e = (k', v')" by (cases e)
  consider "schedule_entry_mdb_cmp_asc k k' < 0"
    | "schedule_entry_mdb_cmp_asc k k' = 0"
    | "\<not> schedule_entry_mdb_cmp_asc k k' < 0" "schedule_entry_mdb_cmp_asc k k' \<noteq> 0"
    by blast
  then show ?case
  proof cases
    case 1
    then show ?thesis by (simp add: e hashes_def)
  next
    case 2
    from cmp_zero_hash [OF 2] 2 show ?thesis by (simp add: e hashes_def)
  next
    case 3
    have "set (hashes (mdb_put k v (e # es))) = insert (hash k') (set (hashes (mdb_put k v es)))"
      using 3 by (simp add: e hashes_def)
    also have "\<dots> = insert (hash k) (set (hashes (e # es)))"
      unfolding Cons.IH by (auto simp: e hashes_def)
    finally show ?thesis .
  qed
qed

lemma set_hashes_tl: "set (hashes (tl cur)) \<subseteq> set (hashes cur)"
  by (cases cur) (auto simp: hashes_def)

lemma distinct_hashes_mdb_put:
  "hash k \<notin> set (hashes es) \<Longrightarrow> distinct (hashes es) \<Longrightarrow> distinct (hashes (mdb_put k v es))"
proof (induction es)
  case Nil
  then show ?case by (simp add: hashes_def)
next
  case (Cons e es)
  obtain k' v' where e: "e = (k', v')" by (cases e)
  from Cons.prems have ne: "hash k' \<noteq> hash k" by (auto simp: e hashes_def)
  then have c: "schedule_entry_mdb_cmp_asc k k' \<noteq> 0" using cmp_zero_hash by blast
  from Cons.prems have k: "hash k \<notin> set (hashes es)" and d: "distinct (hashes es)"
    and k': "hash k' \<notin> set (hashes es)"
    by (auto simp: e hashes_def)
  from Cons.IH [OF k d] have IH: "distinct (hashes (mdb_put k v es))" .
  have nin: "hash k' \<notin> set (hashes (mdb_put k v es))"
    unfolding set_hashes_mdb_put using k' ne by simp
  show ?case
  proof (cases "schedule_entry_mdb_cmp_asc k k' < 0")
    case True
    have "hashes (mdb_put k v (e # es)) = hash k # hash k' # hashes es"
      using True by (simp add: e hashes_def)
    with k k' d ne show ?thesis by auto
  next
    case False
    have "hashes (mdb_put k v (e # es)) = hash k' # hashes (mdb_put k v es)"
      using False c by (simp add: e hashes_def)
    with IH nin show ?thesis by simp
  qed
qed

lemma distinct_hashes_unique:
  assumes "distinct (hashes cur)" "e \<in> set cur" "e' \<in> set cur" "hash (fst e) = hash (fst e')"
  shows "e = e'"
proof -
  from assms(1) have "inj_on (\<lambda>e. hash (fst e)) (set cur)"
    by (simp add: hashes_def distinct_map)
  with assms(2-4) show ?thesis by (auto dest: inj_onD)
qed

lemma mdb_put_member:
  assumes "hash k \<notin> set (hashes es)"
  shows "(k, v) \<in> set (mdb_put k v es)"
  using assms
proof (induction es)
  case Nil
  show ?case by simp
next
  case (Cons e es)
  obtain k' v' where e: "e = (k', v')" by (cases e)
  from Cons.prems have "hash k' \<noteq> hash k" by (auto simp: e hashes_def)
  then have c: "schedule_entry_mdb_cmp_asc k k' \<noteq> 0" using cmp_zero_hash by blast
  from Cons.prems have "hash k \<notin> set (hashes es)" by (simp add: e hashes_def)
  from Cons.IH [OF this] c show ?case by (simp add: e)
qed

lemma mdb_put_keeps_other:
  assumes "e \<in> set es" "hash (fst e) \<noteq> hash k"
  shows "e \<in> set (mdb_put k v es)"
  using assms(1)
proof (induction es)
  case Nil
  then show ?case by simp
next
  case (Cons x es)
  obtain k' v' where x: "x = (k', v')" by (cases x)
  show ?case
  proof (cases "schedule_entry_mdb_cmp_asc k k' = 0")
    case True
    from cmp_zero_hash [OF True] assms(2) have "e \<noteq> x" by (auto simp: x)
    with Cons.prems True show ?thesis by (simp add: x)
  next
    case False
    with Cons show ?thesis by (auto simp: x)
  qed
qed

lemma entry_ok_advance:
  assumes "entry_ok (sk, f)"
  shows "entry_ok (sk\<lparr>score := fp_add (score sk) (fp_div (Fin 1) f)\<rparr>, f)"
proof -
  from assms have "fp_ge (score sk) (Fin 0)" "fp_gt f (Fin 0)" by (simp_all add: entry_ok_def)
  from advance_score_ok [OF this] fp_ge_not_nan assms show ?thesis
    by (simp add: entry_ok_def)
qed

lemma entry_ok_mdb_put:
  assumes "entry_ok (k, v)" "\<forall>e \<in> set es. entry_ok e"
  shows "\<forall>e \<in> set (mdb_put k v es). entry_ok e"
  using assms(2)
proof (induction es)
  case Nil
  with assms(1) show ?case by simp
next
  case (Cons e es)
  obtain k' v' where e: "e = (k', v')" by (cases e)
  from Cons.prems have "entry_ok (k', v')" by (simp add: e)
  with assms(1) have "entry_ok (k', v)" by (simp add: entry_ok_def)
  with Cons assms(1) show ?case by (auto simp: e)
qed

section \<open>Facts about one pass of the request loop\<close>

lemma request_iter_empty:
  assumes "request_iter env sch i urls [] = Inr (b, urls', cur')"
  shows "b \<and> urls' = urls \<and> cur' = []"
  using assms by (auto simp: request_iter_def mdb_get_first_def split: if_splits)

lemma request_iter_keeps:
  assumes "request_iter env sch i urls ((sk, freq) # rest) = Inr (b, urls', cur')"
    and "urls' = urls"
  shows "cur' = (sk, freq) # rest \<or> cur' = rest"
  using assms
  by (auto simp: request_iter_def mdb_get_first_def mdb_del_first_def Let_def
           split: if_splits prod.splits option.splits)

lemma request_iter_drops:
  assumes "request_iter env sch i urls ((sk, freq) # rest) = Inr (b, urls', cur')"
    and "urls' = urls"
  shows "cur' = (sk, freq) # rest
         \<or> (cur' = rest \<and> \<not> crawl sch (snd (page_db_get_info env (hash sk))))"
  using assms
  by (auto simp: request_iter_def mdb_get_first_def mdb_del_first_def Let_def crawl_def
           split: if_splits prod.splits option.splits)

text \<open>
  A pass that adds a URL found the page of the head, below the crawl cap and not
  throttled, and put the head back at its score plus 1/freq.
\<close>

lemma request_iter_emits:
  assumes "request_iter env sch i urls ((sk, freq) # rest) = Inr (b, urls', cur')"
    and "urls' \<noteq> urls"
  shows "\<exists>p. page_db_get_info env (hash sk) = (0, Some p)
             \<and> (max_n_crawls sch = 0 \<or> n_crawls p < max_n_crawls sch)
             \<and> \<not> (fp_ge (margin sch) (Fin 0)
                   \<and> fp_lt (fp_sub (Fin (of_int (time_now env i))) (last_crawl p))
                        (fp_div (Fin 1) (fp_mul freq (fp_add (Fin 1) (margin sch)))))
             \<and> b = False \<and> urls' = urls @ [url p]
             \<and> cur' = mdb_put (sk\<lparr>score := fp_add (score sk) (fp_div (Fin 1) freq)\<rparr>) freq rest"
  using assms
  by (auto simp: request_iter_def mdb_get_first_def mdb_del_first_def Let_def
           split: if_splits prod.splits option.splits)

text \<open>
  After such a pass the table holds the entry of the head's hash at the head's score plus
  1/freq, with the head's frequency (the hash having no other entry).
\<close>

lemma request_iter_replaces_head:
  assumes "request_iter env sch i urls ((sk, freq) # rest) = Inr (b, urls', cur')"
    and "urls' \<noteq> urls"
    and "hash sk \<notin> set (hashes rest)"
  shows "cur' = mdb_put (sk\<lparr>score := fp_add (score sk) (fp_div (Fin 1) freq)\<rparr>) freq rest
         \<and> (\<lparr>score = fp_add (score sk) (fp_div (Fin 1) freq), hash = hash sk\<rparr>, freq) \<in> set cur'"
proof -
  let ?k = "sk\<lparr>score := fp_add (score sk) (fp_div (Fin 1) freq)\<rparr>"
  from request_iter_emits [OF assms(1,2)] have c: "cur' = mdb_put ?k freq rest" by blast
  have m: "(?k, freq) \<in> set cur'"
    unfolding c using assms(3) by (intro mdb_put_member) simp
  have eq: "?k = \<lparr>score = fp_add (score sk) (fp_div (Fin 1) freq), hash = hash sk\<rparr>"
    by simp
  from m [unfolded eq] c show ?thesis by blast
qed

lemma request_iter_cases:
  assumes "request_iter env sch i urls cur = Inr (b, urls', cur')"
  shows "(urls' = urls \<and> cur' = cur)
         \<or> (urls' = urls \<and> cur' = tl cur \<and> cur \<noteq> [])
         \<or> (\<exists>sk freq rest (p :: PageInfo) s'. cur = (sk, freq) # rest \<and> urls' = urls @ [url p]
               \<and> cur' = mdb_put (sk\<lparr>score := s'\<rparr>) freq rest)"
proof (cases cur)
  case Nil
  from request_iter_empty [OF assms [unfolded Nil]] have "urls' = urls \<and> cur' = cur"
    by (simp add: Nil)
  then show ?thesis by (rule disjI1)
next
  case (Cons e es)
  obtain sk freq where e: "e = (sk, freq)" by (cases e)
  have c: "cur = (sk, freq) # es" by (simp add: Cons e)
  show ?thesis
  proof (cases "urls' = urls")
    case True
    from request_iter_keeps [OF assms [unfolded c] True]
    have "cur' = cur \<or> cur' = tl cur \<and> cur \<noteq> []" by (simp add: c)
    with True show ?thesis by fast
  next
    case False
    from request_iter_emits [OF assms [unfolded c] False]
    obtain p :: PageInfo where "urls' = urls @ [url p]"
      "cur' = mdb_put (sk\<lparr>score := fp_add (score sk) (fp_div (Fin 1) freq)\<rparr>) freq es"
      by blast
    with c have "\<exists>sk freq rest (p :: PageInfo) s'. cur = (sk, freq) # rest \<and> urls' = urls @ [url p]
               \<and> cur' = mdb_put (sk\<lparr>score := s'\<rparr>) freq rest"
      by (intro exI conjI)
    then show ?thesis by (intro disjI2)
  qed
qed

lemma request_iter_hashes:
  assumes "request_iter env sch i urls cur = Inr (b, urls', cur')"
  shows "set (hashes cur') \<subseteq> set (hashes cur)"
proof -
  from request_iter_cases [OF assms]
  consider "cur' = cur" | "cur' = tl cur"
    | sk freq rest s' where "cur = (sk, freq) # rest" "cur' = mdb_put (sk\<lparr>score := s'\<rparr>) freq rest"
    by blast
  then show ?thesis
  proof cases
    case 1
    then show ?thesis by simp
  next
    case 2
    then show ?thesis using set_hashes_tl by simp
  next
    case 3
    have "set (hashes cur') = insert (hash sk) (set (hashes rest))"
      unfolding 3(2) set_hashes_mdb_put by simp
    also have "\<dots> = set (hashes cur)"
      unfolding 3(1) by (simp add: hashes_def)
    finally show ?thesis by simp
  qed
qed

lemma request_iter_distinct:
  assumes "request_iter env sch i urls cur = Inr (b, urls', cur')"
    and "distinct (hashes cur)"
  shows "distinct (hashes cur')"
proof -
  from request_iter_cases [OF assms(1)]
  consider "cur' = cur" | "cur' = tl cur"
    | sk freq rest s' where "cur = (sk, freq) # rest" "cur' = mdb_put (sk\<lparr>score := s'\<rparr>) freq rest"
    by blast
  then show ?thesis
  proof cases
    case 1
    with assms(2) show ?thesis by simp
  next
    case 2
    with assms(2) show ?thesis by (cases cur) (simp_all add: hashes_def)
  next
    case 3
    from assms(2) 3(1) have "hash (sk\<lparr>score := s'\<rparr>) \<notin> set (hashes rest)" "distinct (hashes rest)"
      by (simp_all add: hashes_def)
    then show ?thesis unfolding 3(2) by (rule distinct_hashes_mdb_put)
  qed
qed

lemma request_iter_length:
  assumes "request_iter env sch i urls cur = Inr (b, urls', cur')"
  shows "length urls' \<le> Suc (length urls)"
proof (cases "urls' = urls")
  case True
  then show ?thesis by simp
next
  case False
  with request_iter_cases [OF assms] obtain u :: string where "urls' = urls @ [u]" by blast
  then show ?thesis by simp
qed

text \<open>A pass that fails has added at most one URL.\<close>

lemma request_iter_failure_length:
  assumes "request_iter env sch i urls cur = Inl (e, urls')"
  shows "length urls' \<le> Suc (length urls)"
  using assms
  by (auto simp: request_iter_def mdb_get_first_def Let_def
           split: if_splits prod.splits option.splits list.splits)

lemma request_iter_entry_ok:
  assumes "request_iter env sch i urls cur = Inr (b, urls', cur')"
    and "\<forall>e \<in> set cur. entry_ok e"
  shows "\<forall>e \<in> set cur'. entry_ok e"
proof -
  from request_iter_cases [OF assms(1)]
  consider "cur' = cur" | "cur' = tl cur" "cur \<noteq> []"
    | "urls' \<noteq> urls"
    by auto
  then show ?thesis
  proof cases
    case 1
    with assms(2) show ?thesis by simp
  next
    case 2
    with assms(2) show ?thesis by (cases cur) auto
  next
    case 3
    with assms(1) obtain sk freq rest where c: "cur = (sk, freq) # rest"
      using request_iter_empty [of env sch i urls b urls' cur'] by (cases cur) auto
    from request_iter_emits [OF assms(1) [unfolded c] 3]
    have cur': "cur' = mdb_put (sk\<lparr>score := fp_add (score sk) (fp_div (Fin 1) freq)\<rparr>) freq rest"
      by blast
    from assms(2) c have "entry_ok (sk, freq)" "\<forall>e \<in> set rest. entry_ok e" by simp_all
    with entry_ok_advance show ?thesis unfolding cur' by (intro entry_ok_mdb_put) blast+
  qed
qed

lemma request_iter_advances:
  assumes it: "request_iter env sch i urls cur = Inr (b, urls', cur')"
    and d: "distinct (hashes cur)"
    and inj: "urls_identify_pages env"
    and p: "page_db_get_info env (hash k0) = (0, Some p)"
    and c: "crawl sch (Some p)"
    and e: "advanced_entry urls k0 f p \<in> set cur"
  shows "advanced_entry urls' k0 f p \<in> set cur'"
proof -
  let ?E = "advanced_entry urls k0 f p"
  have hE: "hash (fst ?E) = hash k0" by (simp add: advanced_entry_def)
  from e obtain sk freq rest where cur: "cur = (sk, freq) # rest" by (cases cur) auto
  note it' = it [unfolded cur]
  show ?thesis
  proof (cases "urls' = urls")
    case True
    from request_iter_drops [OF it' True]
    consider "cur' = cur" | "cur' = rest" "\<not> crawl sch (snd (page_db_get_info env (hash sk)))"
      unfolding cur by blast
    then show ?thesis
    proof cases
      case 1
      with e True show ?thesis by simp
    next
      case 2
      from 2(2) p c have "hash sk \<noteq> hash k0" by auto
      with hE have "?E \<noteq> (sk, freq)" by auto
      with e cur have "?E \<in> set rest" by simp
      with 2(1) True show ?thesis by simp
    qed
  next
    case False
    from request_iter_emits [OF it' False] obtain ps where
      ps: "page_db_get_info env (hash sk) = (0, Some ps)"
      and u: "urls' = urls @ [url ps]"
      and cur': "cur' = mdb_put (sk\<lparr>score := fp_add (score sk) (fp_div (Fin 1) freq)\<rparr>) freq rest"
      by blast
    let ?sk' = "sk\<lparr>score := fp_add (score sk) (fp_div (Fin 1) freq)\<rparr>"
    show ?thesis
    proof (cases "hash sk = hash k0")
      case True
      have "(sk, freq) \<in> set cur" by (simp add: cur)
      from distinct_hashes_unique [OF d e this] True hE have E: "?E = (sk, freq)" by simp
      from ps p True have "ps = p" by simp
      with u have cnt: "count_list urls' (url p) = Suc (count_list urls (url p))" by simp
      from E have "advanced_entry urls' k0 f p = (?sk', freq)"
        by (auto simp: advanced_entry_def cnt)
      moreover have "(?sk', freq) \<in> set (mdb_put ?sk' freq rest)"
      proof (rule mdb_put_member)
        from d cur show "hash ?sk' \<notin> set (hashes rest)" by (simp add: hashes_def)
      qed
      ultimately show ?thesis by (simp add: cur')
    next
      case False
      with inj ps p have "url ps \<noteq> url p"
        unfolding urls_identify_pages_def by blast
      with u have "count_list urls' (url p) = count_list urls (url p)" by simp
      then have same: "advanced_entry urls' k0 f p = ?E" by (simp add: advanced_entry_def)
      from False hE have "?E \<noteq> (sk, freq)" by auto
      with e cur have "?E \<in> set rest" by simp
      moreover from False hE have "hash (fst ?E) \<noteq> hash ?sk'" by simp
      ultimately have "?E \<in> set (mdb_put ?sk' freq rest)" by (rule mdb_put_keeps_other)
      with same show ?thesis by (simp add: cur')
    qed
  qed
qed

section \<open>Facts about the loop and the call\<close>

text \<open>
  A property of the URLs and the table that every pass keeps holds when the loop ends; a
  pass that fails hands back the table it started from.
\<close>

lemma request_loop_induct_result:
  assumes "\<And>i urls cur b urls' cur'. P urls cur \<Longrightarrow> length urls < max_requests \<Longrightarrow>
             request_iter env sch i urls cur = Inr (b, urls', cur') \<Longrightarrow> P urls' cur'"
    and "\<And>i urls cur e urls'. P urls cur \<Longrightarrow> length urls < max_requests \<Longrightarrow>
             request_iter env sch i urls cur = Inl (e, urls') \<Longrightarrow> f \<noteq> None \<Longrightarrow> P urls' cur"
    and "P urls cur"
    and "request_loop env sch max_requests i b0 urls cur = (f, urls', cur')"
  shows "P urls' cur'"
  using assms
proof (induction env sch max_requests i b0 urls cur rule: request_loop.induct)
  case (1 env sch max_requests i intr urls cur)
  show ?case
  proof (cases "length urls < max_requests \<and> \<not> intr")
    case False
    with 1(5) have "urls' = urls \<and> cur' = cur" by (simp add: request_loop.simps)
    with 1(4) show ?thesis by simp
  next
    case True
    then have lt: "length urls < max_requests" by simp
    show ?thesis
    proof (cases "request_iter env sch i urls cur")
      case (Inl x)
      obtain e u where x: "x = (e, u)" by (cases x)
      with True Inl 1(5) have r: "f = Some e \<and> urls' = u \<and> cur' = cur"
        by (auto simp: request_loop.simps)
      from 1(3) [OF 1(4) lt Inl [unfolded x]] r show ?thesis by simp
    next
      case (Inr r)
      obtain b u c where r: "r = (b, u, c)" by (cases r)
      have P': "P u c" using 1(2) [OF 1(4) lt] Inr r by simp
      have loop: "request_loop env sch max_requests (Suc i) b u c = (f, urls', cur')"
        using 1(5) True Inr r by (simp add: request_loop.simps)
      show ?thesis
        by (rule 1(1) [OF True Inr _ _ 1(2) 1(3) P' loop]) (simp_all add: r)
    qed
  qed
qed

lemma request_loop_invariant:
  assumes "\<And>i urls cur b urls' cur'. P urls cur \<Longrightarrow> length urls < max_requests \<Longrightarrow>
             request_iter env sch i urls cur = Inr (b, urls', cur') \<Longrightarrow> P urls' cur'"
    and "P urls cur"
    and "request_loop env sch max_requests i b0 urls cur = (None, urls', cur')"
  shows "P urls' cur'"
  by (rule request_loop_induct_result [where P = P, OF assms(1) _ assms(2,3)]) simp_all

lemma request_loop_table_invariant:
  assumes "\<And>i urls cur b urls' cur'. Q cur \<Longrightarrow>
             request_iter env sch i urls cur = Inr (b, urls', cur') \<Longrightarrow> Q cur'"
    and "Q cur"
    and "request_loop env sch max_requests i b0 urls cur = (f, urls', cur')"
  shows "Q cur'"
  by (rule request_loop_induct_result [where P = "\<lambda>u c. Q c", OF _ _ assms(2,3)])
     (use assms(1) in blast)+

lemma schedule_on_error [simp]: "schedule (on_error sch func f) = schedule sch"
  by (simp add: on_error_def freq_scheduler_add_error_def freq_scheduler_set_error_def)

lemma code_on_error [simp]: "code (error (on_error sch func f)) = freq_scheduler_error_internal"
  by (simp add: on_error_def freq_scheduler_add_error_def freq_scheduler_set_error_def
        error_add_def error_set_def)

lemma cursor_open_cases:
  assumes "freq_scheduler_cursor_open env sch = (c, cursor, sch1)"
  shows "schedule sch1 = schedule sch \<and> c = code (error sch1)
         \<and> (cursor = None \<or> cursor = Some (schedule sch))
         \<and> (c = freq_scheduler_error_ok \<longrightarrow> sch1 = sch)"
  using assms
  by (auto simp: freq_scheduler_cursor_open_def Let_def freq_scheduler_add_error_def
        freq_scheduler_set_error_def error_add_def error_set_def split: if_splits)

lemma cursor_commit_cases:
  assumes "freq_scheduler_cursor_commit env sch cur = (c, sch')"
  shows "c = code (error sch')
         \<and> (schedule sch' = schedule sch \<or> schedule sch' = cur)"
  using assms
  by (auto simp: freq_scheduler_cursor_commit_def Let_def freq_scheduler_add_error_def
        freq_scheduler_set_error_def error_add_def error_set_def split: if_splits)

lemma txn_works_env_ok: "txn_works (env_ok db pages now)"
  by (simp add: txn_works_def env_ok_def)

lemma page_request_new_env_ok: "page_request_new_ok (env_ok db pages now)"
  by (simp add: env_ok_def)

text \<open>When nothing fails, no pass of the loop jumps to \<^verbatim>\<open>on_error\<close>.\<close>

lemma nothing_fails_env_ok: "nothing_fails (env_ok db pages now)"
  by (simp add: nothing_fails_def txn_works_def env_ok_def)

lemma request_iter_no_failure:
  assumes "nothing_fails env"
  shows "request_iter env sch i urls cur \<noteq> Inl x"
proof -
  obtain rc pinfo where g: "page_db_get_info env (hash (fst (hd cur))) = (rc, pinfo)"
    by (cases "page_db_get_info env (hash (fst (hd cur)))")
  with assms have "rc = 0" by (auto simp: nothing_fails_def dest: spec [of _ "hash (fst (hd cur))"])
  with assms g show ?thesis
    by (cases cur)
       (auto simp: request_iter_def mdb_get_first_def nothing_fails_def Let_def
             split: option.splits if_splits)
qed

lemma request_loop_no_failure:
  assumes "nothing_fails env"
  shows "fst (request_loop env sch max_requests i b urls cur) = None"
  using assms
proof (induction env sch max_requests i b urls cur rule: request_loop.induct)
  case (1 env sch max_requests i intr urls cur)
  show ?case
  proof (cases "length urls < max_requests \<and> \<not> intr")
    case False
    then show ?thesis by (auto simp: request_loop.simps [of env sch max_requests i])
  next
    case True
    show ?thesis
    proof (cases "request_iter env sch i urls cur")
      case (Inl x)
      with request_iter_no_failure [OF 1(2)] show ?thesis by blast
    next
      case (Inr r)
      obtain b' u c where r: "r = (b', u, c)" by (cases r)
      have "fst (request_loop env sch max_requests (Suc i) b' u c) = None"
        by (rule 1(1) [OF True Inr _ _ 1(2)]) (simp_all add: r)
      with True Inr r show ?thesis
        by (simp add: request_loop.simps [of env sch max_requests i])
    qed
  qed
qed

text \<open>
  When the transaction opens and commits and the loop ends without a failure, the call
  returns the success code, the URLs of the loop and the loop's table.
\<close>

lemma request_when_txn_works:
  assumes "txn_works env" "code (error sch) = freq_scheduler_error_ok" "page_request_new_ok env"
    and "request_loop env sch max_requests 0 False [] (schedule sch) = (None, urls, cur')"
  shows "freq_scheduler_request env sch max_requests
         = Some (freq_scheduler_error_ok, Some urls, sch\<lparr>schedule := cur'\<rparr>)"
  using assms
  by (simp add: txn_works_def freq_scheduler_request_def freq_scheduler_cursor_open_def
        freq_scheduler_cursor_commit_def)

text \<open>The committed table after a request: the old one, or the loop's.\<close>

lemma request_schedule:
  assumes "freq_scheduler_request env sch max_requests = Some (c, r, sch')"
  shows "schedule sch' = schedule sch
         \<or> (\<exists>f urls cur'. request_loop env sch max_requests 0 False [] (schedule sch) = (f, urls, cur')
               \<and> schedule sch' = cur')"
proof -
  obtain c0 cursor sch1 where o: "freq_scheduler_cursor_open env sch = (c0, cursor, sch1)"
    by (cases "freq_scheduler_cursor_open env sch")
  note oc = cursor_open_cases [OF o]
  show ?thesis
  proof (cases "c0 \<noteq> freq_scheduler_error_ok \<or> \<not> page_request_new_ok env")
    case True
    with assms o oc show ?thesis
      by (auto simp: freq_scheduler_request_def Let_def split: if_splits)
  next
    case False
    with oc have s1: "sch1 = sch" by simp
    from False assms o obtain cur where cur: "cursor = Some cur"
      by (cases cursor) (auto simp: freq_scheduler_request_def)
    with oc have cur': "cur = schedule sch" by simp
    obtain f urls cur' where
      l: "request_loop env sch max_requests 0 False [] (schedule sch) = (f, urls, cur')"
      by (cases "request_loop env sch max_requests 0 False [] (schedule sch)")
    show ?thesis
    proof (cases f)
      case (Some e)
      with assms o False cur cur' s1 l show ?thesis
        by (auto simp: freq_scheduler_request_def Let_def)
    next
      case None
      obtain c' sch3 where cm: "freq_scheduler_cursor_commit env sch cur' = (c', sch3)"
        by (cases "freq_scheduler_cursor_commit env sch cur'")
      from cursor_commit_cases [OF cm] have "schedule sch3 = schedule sch \<or> schedule sch3 = cur'"
        by simp
      with assms o False cur cur' s1 l None cm show ?thesis
        by (auto simp: freq_scheduler_request_def Let_def split: if_splits)
    qed
  qed
qed

text \<open>The URLs a request hands back are those of the loop.\<close>

lemma request_urls:
  assumes "freq_scheduler_request env sch max_requests = Some (c, Some urls, sch')"
  shows "\<exists>f cur'. request_loop env sch max_requests 0 False [] (schedule sch) = (f, urls, cur')"
proof -
  obtain c0 cursor sch1 where o: "freq_scheduler_cursor_open env sch = (c0, cursor, sch1)"
    by (cases "freq_scheduler_cursor_open env sch")
  note oc = cursor_open_cases [OF o]
  from assms o have ok: "c0 = freq_scheduler_error_ok" "page_request_new_ok env"
    by (auto simp: freq_scheduler_request_def Let_def split: if_splits)
  with oc have s1: "sch1 = sch" by simp
  from assms o ok obtain cur where cur: "cursor = Some cur"
    by (cases cursor) (auto simp: freq_scheduler_request_def)
  with oc have cur': "cur = schedule sch" by simp
  obtain f u cur' where
    l: "request_loop env sch max_requests 0 False [] (schedule sch) = (f, u, cur')"
    by (cases "request_loop env sch max_requests 0 False [] (schedule sch)")
  from assms o ok cur cur' s1 l have "u = urls"
    by (cases f; cases "freq_scheduler_cursor_commit env sch cur'")
       (auto simp: freq_scheduler_request_def Let_def split: if_splits)
  with l show ?thesis by blast
qed

text \<open>
  A call that returns the success code and a list committed the table of its loop.
\<close>

lemma request_ok_result:
  assumes "freq_scheduler_request env sch max_requests
           = Some (freq_scheduler_error_ok, Some urls, sch')"
  shows "request_loop env sch max_requests 0 False [] (schedule sch) = (None, urls, schedule sch')"
proof -
  obtain c0 cursor sch1 where o: "freq_scheduler_cursor_open env sch = (c0, cursor, sch1)"
    by (cases "freq_scheduler_cursor_open env sch")
  note oc = cursor_open_cases [OF o]
  from assms o have ok: "c0 = freq_scheduler_error_ok" "page_request_new_ok env"
    by (auto simp: freq_scheduler_request_def Let_def split: if_splits)
  with oc have s1: "sch1 = sch" by simp
  from assms o ok obtain cur where cur: "cursor = Some cur"
    by (cases cursor) (auto simp: freq_scheduler_request_def)
  with oc have cur': "cur = schedule sch" by simp
  obtain f u cur' where
    l: "request_loop env sch max_requests 0 False [] (schedule sch) = (f, u, cur')"
    by (cases "request_loop env sch max_requests 0 False [] (schedule sch)")
  obtain c' sch3 where cm: "freq_scheduler_cursor_commit env sch cur' = (c', sch3)"
    by (cases "freq_scheduler_cursor_commit env sch cur'")
  from assms o ok cur cur' s1 l cm have "f = None \<and> u = urls \<and> sch3 = sch' \<and> c' = freq_scheduler_error_ok"
    by (cases f) (auto simp: freq_scheduler_request_def Let_def split: if_splits)
  moreover from this cm have "schedule sch' = cur'"
    by (auto simp: freq_scheduler_cursor_commit_def Let_def freq_scheduler_add_error_def
          freq_scheduler_set_error_def error_add_def error_set_def split: if_splits)
  ultimately show ?thesis using l by simp
qed

text \<open>
  The request engine keeps "freq > 0, score >= 0, score not NaN" for every entry.
\<close>

lemma request_keeps_entries_ok:
  assumes "\<forall>e \<in> set (schedule sch). entry_ok e"
    and "freq_scheduler_request env sch max_requests = Some (c, r, sch')"
  shows "\<forall>e \<in> set (schedule sch'). entry_ok e"
proof -
  from request_schedule [OF assms(2)]
  consider "schedule sch' = schedule sch"
    | f urls cur' where "request_loop env sch max_requests 0 False [] (schedule sch) = (f, urls, cur')"
        "schedule sch' = cur'"
    by blast
  then show ?thesis
  proof cases
    case 1
    with assms(1) show ?thesis by simp
  next
    case 2
    have "\<forall>e \<in> set cur'. entry_ok e"
    proof (rule request_loop_table_invariant [where Q = "\<lambda>t. \<forall>e \<in> set t. entry_ok e", OF _ assms(1) 2(1)])
      fix i u t b u' t'
      assume "\<forall>e \<in> set t. entry_ok e" "request_iter env sch i u t = Inr (b, u', t')"
      then show "\<forall>e \<in> set t'. entry_ok e" using request_iter_entry_ok by blast
    qed
    with 2(2) show ?thesis by simp
  qed
qed

lemmas request_eval =
  freq_scheduler_request_def freq_scheduler_cursor_open_def freq_scheduler_cursor_commit_def
  request_loop.simps request_iter_def mdb_get_first_def mdb_del_first_def
  schedule_entry_mdb_cmp_asc_def env_ok_def fresh_scheduler_def no_error_def fp_scenario

lemmas load_eval =
  freq_scheduler_load_simple_def freq_scheduler_load_mmap_def freq_scheduler_cursor_write_def
  freq_scheduler_cursor_open_def freq_scheduler_cursor_commit_def
  schedule_entry_mdb_cmp_asc_def env_ok_def fresh_scheduler_def no_error_def fp_gt_def Let_def
  fp_scenario

text \<open>
  The call of the scenario "two pages", evaluated.
\<close>

lemma two_pages_run:
  assumes "fp_lt m (Fin 0)"
  shows "freq_scheduler_request (env_ok (two_pages_db p1 p2) pages now)
           (fresh_scheduler\<lparr>margin := m, schedule := two_pages_table\<rparr>) 6
         = Some (freq_scheduler_error_ok,
                 Some [url p1, url p2, url p1, url p1, url p2, url p1],
                 fresh_scheduler\<lparr>margin := m,
                   schedule := [(\<lparr>score = Fin 2, hash = 1\<rparr>, Fin 2),
                                (\<lparr>score = Fin 2, hash = 2\<rparr>, Fin 1)]\<rparr>)"
  using fp_lt_not_ge [OF assms]
  by (simp add: request_eval two_pages_db_def two_pages_table_def)

text \<open>
  The call on the table in which hash 1 has two entries and has reached its cap, evaluated.
\<close>

lemma capped_request_run:
  "freq_scheduler_request
     (env_ok (two_pages_db (page ''u1'' (Fin 0) 2) (page ''u2'' (Fin 0) 1)) pages now)
     (fresh_scheduler\<lparr>max_n_crawls := 2, schedule := capped_table\<rparr>) 1
   = Some (freq_scheduler_error_ok, Some [''u2''],
           fresh_scheduler\<lparr>max_n_crawls := 2,
             schedule := [(\<lparr>score = Fin 1, hash = 1\<rparr>, Fin 1),
                          (\<lparr>score = Fin 1, hash = 2\<rparr>, Fin 1)]\<rparr>)"
  by (simp add: request_eval two_pages_db_def capped_table_def page_def fp_ge_def)

text \<open>
  A call in which rounding decides the order: hash 2 at frequency 19 is emitted nineteen
  times and stands at a score just below 1, so that it is the head once more, ahead of the
  entry (score 1, hash 1) that the exact sum 19 * (1/19) = 1 would have let pass first.
\<close>

lemma nineteenth_run:
  "freq_scheduler_request (env_ok (two_pages_db (page ''u1'' (Fin 0) 0) (page ''u2'' (Fin 0) 0)) [] 0)
     (fresh_scheduler\<lparr>schedule := [(\<lparr>score = Fin 0, hash = 2\<rparr>, Fin 19),
                                   (\<lparr>score = Fin 1, hash = 1\<rparr>, Fin 1)]\<rparr>) 20
   = Some (freq_scheduler_error_ok, Some (replicate 20 ''u2''),
           fresh_scheduler\<lparr>schedule :=
             [(\<lparr>score = Fin 1, hash = 1\<rparr>, Fin 1),
              (\<lparr>score = Fin (4740631186705783 / 4503599627370496), hash = 2\<rparr>, Fin 19)]\<rparr>)"
  by (simp only: twenty nineteen)
     (simp add: request_eval two_pages_db_def page_def fp_ge_def nineteenth_sums)

section \<open>Facts about the load from the page database\<close>

lemma load_freq_not_nan: "\<not> is_nan freq_default \<Longrightarrow> \<not> is_nan (load_freq freq_default freq_scale p)"
  by (simp add: load_freq_def fp_mulf_pos_not_nan)

lemma load_simple_loop_refines:
  assumes "\<forall>i. mdb_cursor_put_rc env i = 0"
    and "code (error sch) = freq_scheduler_error_ok"
    and "\<not> is_nan freq_default"
  shows "load_simple_loop env freq_default freq_scale pages i sch cur
         = (False, sch, load_from_pagedb sch freq_default freq_scale pages cur)"
proof (induction pages arbitrary: i cur)
  case Nil
  show ?case by simp
next
  case (Cons x pages)
  obtain h p where x: "x = (h, p)" by (cases x)
  let ?f = "load_freq freq_default freq_scale p"
  have w: "freq_scheduler_cursor_write env sch i cur h ?f
           = (freq_scheduler_error_ok,
              if fp_gt ?f (Fin 0) then mdb_put \<lparr>score = Fin 0, hash = h\<rparr> ?f cur else cur, sch)"
    using assms fp_not_le_iff_gt [OF load_freq_not_nan [OF assms(3), of freq_scale p]]
    by (auto simp: freq_scheduler_cursor_write_def)
  show ?case
  proof (cases "load_eligible sch p")
    case True
    then show ?thesis
      using w Cons.IH
      by (simp add: x load_eligible_def load_freq_def Let_def)
  next
    case False
    then show ?thesis
      using Cons.IH by (auto simp: x load_eligible_def)
  qed
qed

text \<open>
  For a \<open>freq_default\<close> that is a number, a load whose collaborators all succeed commits
  what the spec describes: the entry (score 0, hash) with its frequency for exactly the
  pages that were crawled, are below the cap and are not seeds, and whose frequency is
  greater than 0.
\<close>

lemma load_simple_refines:
  assumes "txn_works env" "hashinfo_stream_new_rc env = 0"
    and "hashinfo_stream_last env = stream_state_end"
    and "\<forall>i. mdb_cursor_put_rc env i = 0"
    and "code (error sch) = freq_scheduler_error_ok"
    and "\<not> is_nan freq_default"
  shows "freq_scheduler_load_simple env sch freq_default freq_scale
         = Some (freq_scheduler_error_ok,
                 sch\<lparr>schedule := load_from_pagedb sch freq_default freq_scale
                                     (hashinfo_stream env) (schedule sch)\<rparr>)"
  using assms(1,2,3,5) load_simple_loop_refines [OF assms(4,5,6)]
  by (simp add: freq_scheduler_load_simple_def freq_scheduler_cursor_open_def txn_works_def
        freq_scheduler_cursor_commit_def)

section \<open>Facts about the loads and the dump\<close>

text \<open>
  The load from the page database writes keys of score zero only, and commits the table of
  its loop or leaves the schedule as it was.
\<close>

lemma cursor_write_cases:
  assumes "freq_scheduler_cursor_write env sch i cur h freq = (c, cur', sch')"
  shows "cur' = cur \<or> cur' = mdb_put \<lparr>score = Fin 0, hash = h\<rparr> freq cur"
  using assms by (auto simp: freq_scheduler_cursor_write_def Let_def split: if_splits)

lemma load_simple_loop_keeps:
  assumes "load_simple_loop env freq_default freq_scale pages i sch cur = (failed, sch', cur')"
    and "zero_scores cur" "in_key_order cur"
  shows "zero_scores cur' \<and> in_key_order cur'"
  using assms
proof (induction env freq_default freq_scale pages i sch cur rule: load_simple_loop.induct)
  case (1 env freq_default freq_scale i sch cur)
  then show ?case by simp
next
  case (2 env freq_default freq_scale h p rest i sch cur)
  show ?case
  proof (cases "0 < n_crawls p \<and> (max_n_crawls sch = 0 \<or> n_crawls p < max_n_crawls sch)
                 \<and> \<not> is_seed p")
    case False
    with 2(2) [OF False] 2(3-5) show ?thesis by simp
  next
    case True
    let ?freq = "if fp_gt freq_scale (Fin 0) \<and> fp_gt (rate p) (Fin 0)
                 then fp_mulf freq_scale (rate p) else freq_default"
    obtain c cur1 sch1 where
      w: "freq_scheduler_cursor_write env sch i cur h ?freq = (c, cur1, sch1)"
      by (cases "freq_scheduler_cursor_write env sch i cur h ?freq")
    from cursor_write_cases [OF w] 2(4,5)
    have k: "zero_scores cur1 \<and> in_key_order cur1"
      by (auto intro: zero_scores_mdb_put in_key_order_mdb_put)
    show ?thesis
    proof (cases "c \<noteq> freq_scheduler_error_ok")
      case True
      with \<open>0 < n_crawls p \<and> _\<close> w 2(3) k show ?thesis by (simp add: Let_def)
    next
      case False
      from 2(3) True w False
      have "load_simple_loop env freq_default freq_scale rest (Suc i) sch1 cur1
            = (failed, sch', cur')"
        by (simp add: Let_def)
      from 2(1) [OF True refl w [symmetric] refl _ this] False k show ?thesis by simp
    qed
  qed
qed

lemma cursor_write_schedule:
  assumes "freq_scheduler_cursor_write env sch i cur h freq = (c, cur', sch')"
  shows "schedule sch' = schedule sch"
  using assms
  by (auto simp: freq_scheduler_cursor_write_def Let_def freq_scheduler_add_error_def
        freq_scheduler_set_error_def split: if_splits)

lemma load_simple_loop_schedule:
  assumes "load_simple_loop env freq_default freq_scale pages i sch cur = (failed, sch', cur')"
  shows "schedule sch' = schedule sch"
  using assms
proof (induction env freq_default freq_scale pages i sch cur rule: load_simple_loop.induct)
  case (1 env freq_default freq_scale i sch cur)
  then show ?case by simp
next
  case (2 env freq_default freq_scale h p rest i sch cur)
  show ?case
  proof (cases "0 < n_crawls p \<and> (max_n_crawls sch = 0 \<or> n_crawls p < max_n_crawls sch)
                 \<and> \<not> is_seed p")
    case False
    with 2(2) [OF False] 2(3) show ?thesis by simp
  next
    case True
    let ?freq = "if fp_gt freq_scale (Fin 0) \<and> fp_gt (rate p) (Fin 0)
                 then fp_mulf freq_scale (rate p) else freq_default"
    obtain c cur1 sch1 where
      w: "freq_scheduler_cursor_write env sch i cur h ?freq = (c, cur1, sch1)"
      by (cases "freq_scheduler_cursor_write env sch i cur h ?freq")
    note s1 = cursor_write_schedule [OF w]
    show ?thesis
    proof (cases "c \<noteq> freq_scheduler_error_ok")
      case True
      with \<open>0 < n_crawls p \<and> _\<close> w 2(3) s1 show ?thesis by (simp add: Let_def)
    next
      case False
      from 2(3) True w False
      have "load_simple_loop env freq_default freq_scale rest (Suc i) sch1 cur1
            = (failed, sch', cur')"
        by (simp add: Let_def)
      from 2(1) [OF True refl w [symmetric] refl _ this] False s1 show ?thesis by simp
    qed
  qed
qed

lemma load_simple_schedule:
  assumes "freq_scheduler_load_simple env sch freq_default freq_scale = Some (c, sch')"
  shows "schedule sch' = schedule sch
         \<or> (\<exists>failed sch2 cur'.
               load_simple_loop env freq_default freq_scale (hashinfo_stream env) 0 sch
                 (schedule sch) = (failed, sch2, cur')
               \<and> schedule sch' = cur')"
proof -
  obtain c0 cursor sch1 where o: "freq_scheduler_cursor_open env sch = (c0, cursor, sch1)"
    by (cases "freq_scheduler_cursor_open env sch")
  note oc = cursor_open_cases [OF o]
  show ?thesis
  proof (cases "hashinfo_stream_new_rc env \<noteq> 0 \<or> c0 \<noteq> freq_scheduler_error_ok")
    case True
    with assms o oc show ?thesis
      by (auto simp: freq_scheduler_load_simple_def Let_def split: if_splits)
  next
    case False
    with oc have s1: "sch1 = sch" by simp
    show ?thesis
    proof (cases cursor)
      case None
      with assms o False s1 show ?thesis
        by (auto simp: freq_scheduler_load_simple_def Let_def split: if_splits)
    next
      case (Some cur)
      with oc have cur: "cur = schedule sch" by simp
      obtain failed sch2 cur' where
        l: "load_simple_loop env freq_default freq_scale (hashinfo_stream env) 0 sch
              (schedule sch) = (failed, sch2, cur')"
        by (cases "load_simple_loop env freq_default freq_scale (hashinfo_stream env) 0 sch
                     (schedule sch)")
      obtain c' sch3 where cm: "freq_scheduler_cursor_commit env sch2 cur' = (c', sch3)"
        by (cases "freq_scheduler_cursor_commit env sch2 cur'")
      note s2 = load_simple_loop_schedule [OF l]
      from cursor_commit_cases [OF cm] s2
      have "schedule sch3 = schedule sch \<or> schedule sch3 = cur'" by simp
      with assms o False s1 Some cur l cm s2 show ?thesis
        by (auto simp: freq_scheduler_load_simple_def Let_def split: if_splits)
    qed
  qed
qed


text \<open>
  The load from an array keeps the hashes distinct when those of the array are distinct
  and new to the table.
\<close>

lemma load_mmap_loop_distinct:
  assumes "load_mmap_loop env freqs i cur = Inr cur'"
    and "distinct (hashes cur)" "distinct (map pf_hash freqs)"
    and "set (map pf_hash freqs) \<inter> set (hashes cur) = {}"
  shows "distinct (hashes cur')"
  using assms
proof (induction freqs arbitrary: i cur)
  case Nil
  then show ?case by simp
next
  case (Cons f freqs)
  let ?cur = "mdb_put \<lparr>score = fp_div (Fin 1) (pf_freq f), hash = pf_hash f\<rparr> (pf_freq f) cur"
  from Cons.prems(1) have l: "load_mmap_loop env freqs (Suc i) ?cur = Inr cur'"
    by (simp split: if_splits)
  from Cons.prems(4) have "pf_hash f \<notin> set (hashes cur)" by simp
  with Cons.prems(2) have d: "distinct (hashes ?cur)"
    by (intro distinct_hashes_mdb_put) simp_all
  from Cons.prems(3,4) have "set (map pf_hash freqs) \<inter> set (hashes ?cur) = {}"
    unfolding set_hashes_mdb_put by auto
  with Cons.IH [OF l d] Cons.prems(3) show ?case by simp
qed

lemma load_mmap_schedule:
  assumes "freq_scheduler_load_mmap env sch freqs = Some (c, sch')"
  shows "schedule sch' = schedule sch
         \<or> (\<exists>cur'. load_mmap_loop env freqs 0 (schedule sch) = Inr cur' \<and> schedule sch' = cur')"
proof -
  obtain c0 cursor sch1 where o: "freq_scheduler_cursor_open env sch = (c0, cursor, sch1)"
    by (cases "freq_scheduler_cursor_open env sch")
  note oc = cursor_open_cases [OF o]
  show ?thesis
  proof (cases "txn_manager_expand_rc env \<noteq> 0 \<or> c0 \<noteq> freq_scheduler_error_ok")
    case True
    with assms o oc show ?thesis
      by (auto simp: freq_scheduler_load_mmap_def Let_def split: if_splits)
  next
    case False
    with oc have s1: "sch1 = sch" by simp
    from False assms o obtain cur where cur: "cursor = Some cur"
      by (cases cursor) (auto simp: freq_scheduler_load_mmap_def)
    with oc have cur': "cur = schedule sch" by simp
    show ?thesis
    proof (cases "load_mmap_loop env freqs 0 (schedule sch)")
      case (Inl e)
      with assms o False s1 cur cur' show ?thesis
        by (auto simp: freq_scheduler_load_mmap_def Let_def)
    next
      case (Inr t)
      obtain c' sch3 where cm: "freq_scheduler_cursor_commit env sch t = (c', sch3)"
        by (cases "freq_scheduler_cursor_commit env sch t")
      from cursor_commit_cases [OF cm]
      have "schedule sch3 = schedule sch \<or> schedule sch3 = t" by simp
      with assms o False s1 cur cur' Inr cm show ?thesis
        by (auto simp: freq_scheduler_load_mmap_def Let_def split: if_splits)
    qed
  qed
qed

text \<open>When no put and no read fails, the loops of the loads and of the dump run to their end.\<close>

lemma load_simple_loop_no_failure:
  assumes "\<forall>i. mdb_cursor_put_rc env i = 0" "code (error sch) = freq_scheduler_error_ok"
  shows "\<exists>cur'. load_simple_loop env freq_default freq_scale pages i sch cur = (False, sch, cur')"
proof (induction pages arbitrary: i cur)
  case Nil
  show ?case by simp
next
  case (Cons x pages)
  obtain h p where x: "x = (h, p)" by (cases x)
  have w: "\<exists>cur1. freq_scheduler_cursor_write env sch i cur h f = (freq_scheduler_error_ok, cur1, sch)"
    for f
    using assms by (simp add: freq_scheduler_cursor_write_def)
  show ?case
  proof (cases "0 < n_crawls p \<and> (max_n_crawls sch = 0 \<or> n_crawls p < max_n_crawls sch)
                 \<and> \<not> is_seed p")
    case False
    with Cons.IH [of "Suc i" cur] show ?thesis by (auto simp: x)
  next
    case True
    let ?freq = "if fp_gt freq_scale (Fin 0) \<and> fp_gt (rate p) (Fin 0)
                 then fp_mulf freq_scale (rate p) else freq_default"
    from w [of ?freq] obtain cur1 where
      "freq_scheduler_cursor_write env sch i cur h ?freq = (freq_scheduler_error_ok, cur1, sch)"
      by blast
    with True Cons.IH [of "Suc i" cur1] show ?thesis by (simp add: x Let_def)
  qed
qed

lemma load_mmap_loop_no_failure:
  assumes "\<forall>i. mdb_cursor_put_rc env i = 0"
  shows "\<exists>cur'. load_mmap_loop env freqs i cur = Inr cur'"
  using assms by (induction freqs arbitrary: i cur) simp_all

lemma dump_loop_no_failure:
  assumes "\<forall>i. mdb_cursor_get_rc env i = 0"
  shows "\<exists>out'. dump_loop env i cur sch out = (sch, out')"
  using assms by (induction cur arbitrary: i out) auto

section \<open>Scenario: two pages interleaved\<close>

text \<open>
  C1 (as amended). From the schedule holding exactly (hash 1, frequency 2.0) and (hash 2,
  frequency 1.0), both at score 0, with throttling disabled (margin below 0) and no crawl
  cap, \<^verbatim>\<open>freq_scheduler_request\<close> with \<open>max_requests = 6\<close> emits the six URLs in the order
  u1, u2, u1, u1, u2, u1 (each time the entry with the least (score, hash) key), and
  afterwards the stored score of hash 1 is 2.0 and the stored score of hash 2 is 2.0.
\<close>

theorem two_pages_interleaving:
  assumes "fp_lt m (Fin 0)"
  shows "freq_scheduler_request (env_ok (two_pages_db p1 p2) pages now)
           (fresh_scheduler\<lparr>margin := m, schedule := two_pages_table\<rparr>) 6
         = Some (freq_scheduler_error_ok,
                 Some [url p1, url p2, url p1, url p1, url p2, url p1],
                 fresh_scheduler\<lparr>margin := m,
                   schedule := [(\<lparr>score = Fin 2, hash = 1\<rparr>, Fin 2),
                                (\<lparr>score = Fin 2, hash = 2\<rparr>, Fin 1)]\<rparr>)
         \<and> scores_of 1 [(\<lparr>score = Fin 2, hash = 1\<rparr>, Fin 2),
                         (\<lparr>score = Fin 2, hash = 2\<rparr>, Fin 1)] = [Fin 2]
         \<and> scores_of 2 [(\<lparr>score = Fin 2, hash = 1\<rparr>, Fin 2),
                         (\<lparr>score = Fin 2, hash = 2\<rparr>, Fin 1)] = [Fin 2]"
  using two_pages_run [OF assms, of p1 p2 pages now] by (simp add: scores_of_def)

theorem two_pages_interleaving_witness:
  "fp_lt (Fin (- 1)) (Fin 0)
   \<and> freq_scheduler_request
       (env_ok (two_pages_db (page ''u1'' (Fin 0) 0) (page ''u2'' (Fin 0) 0)) [] 0)
       (fresh_scheduler\<lparr>margin := Fin (- 1), schedule := two_pages_table\<rparr>) 6
     = Some (freq_scheduler_error_ok,
             Some [''u1'', ''u2'', ''u1'', ''u1'', ''u2'', ''u1''],
             fresh_scheduler\<lparr>margin := Fin (- 1),
               schedule := [(\<lparr>score = Fin 2, hash = 1\<rparr>, Fin 2),
                            (\<lparr>score = Fin 2, hash = 2\<rparr>, Fin 1)]\<rparr>)"
  using two_pages_interleaving
          [of "Fin (- 1)" "page ''u1'' (Fin 0) 0" "page ''u2'' (Fin 0) 0" "[]" 0]
  by (simp add: page_def)

text \<open>
  The order the claim gives, u1, u1, u2, u1, u1, u2, is not what the call returns: after
  the first emission hash 1 stands at score 0.5 and hash 2, still at score 0, is the head.
\<close>

theorem two_pages_order_counterexample:
  "freq_scheduler_request
     (env_ok (two_pages_db (page ''u1'' (Fin 0) 0) (page ''u2'' (Fin 0) 0)) [] 0)
     (fresh_scheduler\<lparr>schedule := two_pages_table\<rparr>) 6
   = Some (freq_scheduler_error_ok,
           Some [''u1'', ''u2'', ''u1'', ''u1'', ''u2'', ''u1''],
           fresh_scheduler\<lparr>schedule := [(\<lparr>score = Fin 2, hash = 1\<rparr>, Fin 2),
                                        (\<lparr>score = Fin 2, hash = 2\<rparr>, Fin 1)]\<rparr>)
   \<and> [''u1'', ''u2'', ''u1'', ''u1'', ''u2'', ''u1'']
     \<noteq> [''u1'', ''u1'', ''u2'', ''u1'', ''u1'', ''u2'']"
proof -
  have m: "fresh_scheduler\<lparr>margin := Fin (- 1)\<rparr> = fresh_scheduler"
    by (simp add: fresh_scheduler_def)
  have "fp_lt (Fin (- 1)) (Fin 0)" by simp
  from two_pages_run [OF this, of "page ''u1'' (Fin 0) 0" "page ''u2'' (Fin 0) 0" "[]" 0]
  show ?thesis by (simp add: page_def m)
qed

section \<open>The score after a call\<close>




section \<open>The throttle\<close>



section \<open>The crawl cap\<close>

text \<open>
  C4 (as amended). For every popped head entry that is not throttled (the store and the
  request list working), a URL is emitted and the entry re-inserted exactly when
  \<open>crawl\<close> holds; when \<open>crawl\<close> is false the head entry is deleted and no URL is
  emitted for it, and the hash is absent from the table the loop ends with provided no
  other entry of the table carries the same hash.
\<close>

theorem crawl_decides_emission:
  assumes "mdb_cursor_get_rc env i = 0"
    and "page_db_get_info env (hash sk) = (0, pinfo)"
    and "\<not> throttled env sch i freq pinfo"
    and "mdb_cursor_del_rc env i = 0"
    and "page_request_add_url_rc env i = 0"
    and "mdb_cursor_put_rc env i = 0"
  shows "(crawl sch pinfo \<longrightarrow>
            (\<exists>p. pinfo = Some p
               \<and> request_iter env sch i urls ((sk, freq) # rest)
                 = Inr (False, urls @ [url p],
                        mdb_put (sk\<lparr>score := fp_add (score sk) (fp_div (Fin 1) freq)\<rparr>) freq rest)))
         \<and> (\<not> crawl sch pinfo \<longrightarrow>
              request_iter env sch i urls ((sk, freq) # rest) = Inr (False, urls, rest)
              \<and> (length urls < max_requests \<and> hash sk \<notin> set (hashes rest) \<longrightarrow>
                   hash sk \<notin> set (hashes (snd (snd (request_loop env sch max_requests i False urls
                                                      ((sk, freq) # rest)))))))"
proof (intro conjI impI)
  assume "crawl sch pinfo"
  with assms show "\<exists>p. pinfo = Some p
      \<and> request_iter env sch i urls ((sk, freq) # rest)
        = Inr (False, urls @ [url p],
               mdb_put (sk\<lparr>score := fp_add (score sk) (fp_div (Fin 1) freq)\<rparr>) freq rest)"
    by (cases pinfo)
       (simp_all add: crawl_def throttled_def request_iter_def mdb_get_first_def mdb_del_first_def)
next
  assume nc: "\<not> crawl sch pinfo"
  with assms show it: "request_iter env sch i urls ((sk, freq) # rest) = Inr (False, urls, rest)"
    by (cases pinfo)
       (simp_all add: crawl_def throttled_def request_iter_def mdb_get_first_def mdb_del_first_def)
  assume a: "length urls < max_requests \<and> hash sk \<notin> set (hashes rest)"
  obtain f urls' cur' where
    r: "request_loop env sch max_requests (Suc i) False urls rest = (f, urls', cur')"
    by (cases "request_loop env sch max_requests (Suc i) False urls rest")
  have step: "hash sk \<notin> set (hashes c')"
    if "hash sk \<notin> set (hashes c)" "request_iter env sch j u c = Inr (b, u', c')"
    for j u c b u' c'
    using request_iter_hashes [OF that(2)] that(1) by blast
  have base: "hash sk \<notin> set (hashes rest)" using a by simp
  have absent: "hash sk \<notin> set (hashes cur')"
    by (rule request_loop_table_invariant [where Q = "\<lambda>c. hash sk \<notin> set (hashes c)", OF step base r])
  have eq: "request_loop env sch max_requests i False urls ((sk, freq) # rest)
            = request_loop env sch max_requests (Suc i) False urls rest"
    using a it by (simp add: request_loop.simps [of env sch max_requests i])
  show "hash sk \<notin> set (hashes (snd (snd (request_loop env sch max_requests i False urls
                                                      ((sk, freq) # rest)))))"
    unfolding eq r using absent by simp
qed

text \<open>
  The scenario "cap retires page": hash 9 at frequency 5 with a cap of three crawls. At
  three crawls the entry is dropped and the hash is gone; at two crawls its URL is emitted
  and the entry goes back at the score 1.0/5, the \<^verbatim>\<open>double\<close> nearest to 1/5.
\<close>

theorem crawl_decides_emission_witness:
  "\<not> crawl (fresh_scheduler\<lparr>max_n_crawls := 3\<rparr>) (retired_db 9)
   \<and> request_iter (env_ok retired_db [] 0) (fresh_scheduler\<lparr>max_n_crawls := 3\<rparr>) 0 []
        [(\<lparr>score = Fin (3602879701896397 / 18014398509481984), hash = 9\<rparr>, Fin 5)]
      = Inr (False, [], [])
   \<and> 9 \<notin> set (hashes (snd (snd (request_loop (env_ok retired_db [] 0)
                 (fresh_scheduler\<lparr>max_n_crawls := 3\<rparr>) 5 0 False []
                 [(\<lparr>score = Fin (3602879701896397 / 18014398509481984), hash = 9\<rparr>, Fin 5)]))))
   \<and> crawl (fresh_scheduler\<lparr>max_n_crawls := 3\<rparr>) (Some (page ''u9'' (Fin 0) 2))
   \<and> request_iter (env_ok (\<lambda>h. Some (page ''u9'' (Fin 0) 2)) [] 0)
        (fresh_scheduler\<lparr>max_n_crawls := 3\<rparr>) 0 []
        [(\<lparr>score = Fin 0, hash = 9\<rparr>, Fin 5)]
      = Inr (False, [''u9''], [(\<lparr>score = Fin (3602879701896397 / 18014398509481984), hash = 9\<rparr>, Fin 5)])"
proof -
  let ?sch = "fresh_scheduler\<lparr>max_n_crawls := 3\<rparr>"
  let ?env = "env_ok retired_db [] 0"
  let ?sk = "\<lparr>score = Fin (3602879701896397 / 18014398509481984), hash = 9\<rparr>"
  have nc: "\<not> crawl ?sch (retired_db 9)"
    by (simp add: crawl_def retired_db_def page_def fresh_scheduler_def)
  have a1: "mdb_cursor_get_rc ?env 0 = 0" and a4: "mdb_cursor_del_rc ?env 0 = 0"
    and a5: "page_request_add_url_rc ?env 0 = 0" and a6: "mdb_cursor_put_rc ?env 0 = 0"
    by (simp_all add: env_ok_def)
  have a2: "page_db_get_info ?env (hash ?sk) = (0, retired_db 9)"
    by (simp add: env_ok_def)
  have a3: "\<not> throttled ?env ?sch 0 (Fin 5) (retired_db 9)"
    by (simp add: throttled_def retired_db_def fresh_scheduler_def fp_ge_def)
  from crawl_decides_emission [OF a1 a2 a3 a4 a5 a6, of "[]" "[]" 5] nc
  have r1: "request_iter ?env ?sch 0 [] [(?sk, Fin 5)] = Inr (False, [], [])"
    and r2: "9 \<notin> set (hashes (snd (snd (request_loop ?env ?sch 5 0 False [] [(?sk, Fin 5)]))))"
    by (simp_all add: hashes_def)
  let ?env2 = "env_ok (\<lambda>h. Some (page ''u9'' (Fin 0) 2)) [] 0"
  let ?sk2 = "\<lparr>score = Fin 0, hash = 9\<rparr>"
  have c: "crawl ?sch (Some (page ''u9'' (Fin 0) 2))"
    by (simp add: crawl_def page_def fresh_scheduler_def)
  have b1: "mdb_cursor_get_rc ?env2 0 = 0" and b4: "mdb_cursor_del_rc ?env2 0 = 0"
    and b5: "page_request_add_url_rc ?env2 0 = 0" and b6: "mdb_cursor_put_rc ?env2 0 = 0"
    by (simp_all add: env_ok_def)
  have b2: "page_db_get_info ?env2 (hash ?sk2) = (0, Some (page ''u9'' (Fin 0) 2))"
    by (simp add: env_ok_def)
  have b3: "\<not> throttled ?env2 ?sch 0 (Fin 5) (Some (page ''u9'' (Fin 0) 2))"
    by (simp add: throttled_def fresh_scheduler_def fp_ge_def)
  from crawl_decides_emission [OF b1 b2 b3 b4 b5 b6, of "[]" "[]" 5] c
  have r3: "request_iter ?env2 ?sch 0 [] [(?sk2, Fin 5)]
            = Inr (False, [''u9''], [(\<lparr>score = Fin (3602879701896397 / 18014398509481984), hash = 9\<rparr>, Fin 5)])"
    by (simp add: page_def fp_scenario)
  from nc r1 r2 c r3 show ?thesis by blast
qed

text \<open>
  With a second entry for the retired hash the claim fails as stated: the head entry of
  hash 1 is dropped, the call then emits hash 2 and stops, and the entry of hash 1 at
  score 1 is still in the committed schedule.
\<close>

theorem retired_hash_remains_counterexample:
  "\<not> crawl (fresh_scheduler\<lparr>max_n_crawls := 2, schedule := capped_table\<rparr>)
       (two_pages_db (page ''u1'' (Fin 0) 2) (page ''u2'' (Fin 0) 1) 1)
   \<and> freq_scheduler_request
       (env_ok (two_pages_db (page ''u1'' (Fin 0) 2) (page ''u2'' (Fin 0) 1)) [] 0)
       (fresh_scheduler\<lparr>max_n_crawls := 2, schedule := capped_table\<rparr>) 1
     = Some (freq_scheduler_error_ok, Some [''u2''],
             fresh_scheduler\<lparr>max_n_crawls := 2,
               schedule := [(\<lparr>score = Fin 1, hash = 1\<rparr>, Fin 1),
                            (\<lparr>score = Fin 1, hash = 2\<rparr>, Fin 1)]\<rparr>)
   \<and> hashes [(\<lparr>score = Fin 1, hash = 1\<rparr>, Fin 1), (\<lparr>score = Fin 1, hash = 2\<rparr>, Fin 1)]
     = [1, 2]"
  using capped_request_run [of "[]" 0]
  by (simp add: crawl_def two_pages_db_def page_def fresh_scheduler_def hashes_def)

section \<open>The entries a load can store\<close>

text \<open>
  C5 (the code at the failing input). \<^verbatim>\<open>freq_scheduler_load_mmap\<close> writes every array
  element without looking at its frequency: the element (hash 1, frequency -1.0) is
  committed as the entry (score -1.0, hash 1) with frequency -1.0, which has neither a
  frequency greater than 0 nor a score of at least 0.
\<close>

theorem load_mmap_stores_negative_frequency:
  "freq_scheduler_load_mmap (env_ok Map.empty [] 0) fresh_scheduler
     [\<lparr>pf_hash = 1, pf_freq = Fin (- 1)\<rparr>]
   = Some (freq_scheduler_error_ok,
           fresh_scheduler\<lparr>schedule := [(\<lparr>score = Fin (- 1), hash = 1\<rparr>, Fin (- 1))]\<rparr>)
   \<and> \<not> fp_gt (Fin (- 1)) (Fin 0) \<and> \<not> fp_ge (Fin (- 1)) (Fin 0)"
  by (simp add: load_eval fp_ge_def)

section \<open>One entry per hash\<close>

text \<open>
  C6 (as amended). Each hash occurs in at most one entry of the schedule after
  \<^verbatim>\<open>freq_scheduler_request\<close> when that held before the call; after
  \<^verbatim>\<open>freq_scheduler_load_simple\<close> when every score of the schedule (kept in key order) is
  zero before the call, as it is on a fresh scheduler and, the load keeping it so, after
  any sequence of such loads; and after \<^verbatim>\<open>freq_scheduler_load_mmap\<close> when that held
  before the call and the hashes of the array are distinct and not yet in the schedule.
  It does not hold after a load repeated once a request has advanced a score: the key is
  (score, hash), and the load puts its key beside the entry of the same hash stored under
  another score.
\<close>

theorem operations_keep_hashes_distinct:
  "(distinct (hashes (schedule sch))
      \<and> freq_scheduler_request env sch max_requests = Some (c, r, sch')
    \<longrightarrow> distinct (hashes (schedule sch')))
   \<and> (zero_scores (schedule sch) \<and> in_key_order (schedule sch)
        \<and> freq_scheduler_load_simple env sch freq_default freq_scale = Some (cl, schl)
      \<longrightarrow> distinct (hashes (schedule schl))
          \<and> zero_scores (schedule schl) \<and> in_key_order (schedule schl))
   \<and> (distinct (hashes (schedule sch)) \<and> distinct (map pf_hash freqs)
        \<and> set (map pf_hash freqs) \<inter> set (hashes (schedule sch)) = {}
        \<and> freq_scheduler_load_mmap env sch freqs = Some (cm, schm)
      \<longrightarrow> distinct (hashes (schedule schm)))"
proof (intro conjI impI)
  assume a: "distinct (hashes (schedule sch))
             \<and> freq_scheduler_request env sch max_requests = Some (c, r, sch')"
  from request_schedule [of env sch max_requests c r sch'] a
  consider "schedule sch' = schedule sch"
    | f urls cur' where "request_loop env sch max_requests 0 False [] (schedule sch) = (f, urls, cur')"
        "schedule sch' = cur'"
    by blast
  then show "distinct (hashes (schedule sch'))"
  proof cases
    case 1
    with a show ?thesis by simp
  next
    case 2
    have step: "distinct (hashes c')"
      if "distinct (hashes c)" "request_iter env sch j u c = Inr (b, u', c')"
      for j u c b u' c'
      using request_iter_distinct [OF that(2) that(1)] .
    from a have base: "distinct (hashes (schedule sch))" by simp
    have "distinct (hashes cur')"
      by (rule request_loop_table_invariant
            [where Q = "\<lambda>c. distinct (hashes c)", OF step base 2(1)])
    with 2(2) show ?thesis by simp
  qed
next
  assume a: "zero_scores (schedule sch) \<and> in_key_order (schedule sch)
             \<and> freq_scheduler_load_simple env sch freq_default freq_scale = Some (cl, schl)"
  have k: "zero_scores (schedule schl) \<and> in_key_order (schedule schl)"
  proof -
    from load_simple_schedule [of env sch freq_default freq_scale cl schl] a
    consider "schedule schl = schedule sch"
      | failed s t where
          "load_simple_loop env freq_default freq_scale (hashinfo_stream env) 0 sch
             (schedule sch) = (failed, s, t)"
          "schedule schl = t"
      by blast
    then show ?thesis
    proof cases
      case 1
      with a show ?thesis by simp
    next
      case 2
      from load_simple_loop_keeps [OF 2(1)] a 2(2) show ?thesis by simp
    qed
  qed
  with in_key_order_zero_distinct [of "schedule schl"]
  show "distinct (hashes (schedule schl))" by simp
  from k show "zero_scores (schedule schl)" by simp
  from k show "in_key_order (schedule schl)" by simp
next
  assume a: "distinct (hashes (schedule sch)) \<and> distinct (map pf_hash freqs)
        \<and> set (map pf_hash freqs) \<inter> set (hashes (schedule sch)) = {}
        \<and> freq_scheduler_load_mmap env sch freqs = Some (cm, schm)"
  from load_mmap_schedule [of env sch freqs cm schm] a
  consider "schedule schm = schedule sch"
    | t where "load_mmap_loop env freqs 0 (schedule sch) = Inr t" "schedule schm = t"
    by blast
  then show "distinct (hashes (schedule schm))"
  proof cases
    case 1
    with a show ?thesis by simp
  next
    case 2
    from load_mmap_loop_distinct [OF 2(1)] a 2(2) show ?thesis by simp
  qed
qed

text \<open>
  The two-pages call; the load from the page database repeated on the table it has
  written; and the load of two frequencies into an empty schedule.
\<close>

theorem operations_keep_hashes_distinct_witness:
  "distinct (hashes two_pages_table)
   \<and> freq_scheduler_request
       (env_ok (two_pages_db (page ''u1'' (Fin 0) 0) (page ''u2'' (Fin 0) 0)) [] 0)
       (fresh_scheduler\<lparr>margin := Fin (- 1), schedule := two_pages_table\<rparr>) 6
     = Some (freq_scheduler_error_ok,
             Some [''u1'', ''u2'', ''u1'', ''u1'', ''u2'', ''u1''],
             fresh_scheduler\<lparr>margin := Fin (- 1),
               schedule := [(\<lparr>score = Fin 2, hash = 1\<rparr>, Fin 2),
                            (\<lparr>score = Fin 2, hash = 2\<rparr>, Fin 1)]\<rparr>)
   \<and> distinct (hashes [(\<lparr>score = Fin 2, hash = 1\<rparr>, Fin 2), (\<lparr>score = Fin 2, hash = 2\<rparr>, Fin 1)])
   \<and> zero_scores [(\<lparr>score = Fin 0, hash = 1\<rparr>, Fin 1), (\<lparr>score = Fin 0, hash = 2\<rparr>, Fin 1)]
   \<and> in_key_order [(\<lparr>score = Fin 0, hash = 1\<rparr>, Fin 1), (\<lparr>score = Fin 0, hash = 2\<rparr>, Fin 1)]
   \<and> freq_scheduler_load_simple reload_env
       (reload_sch [(\<lparr>score = Fin 0, hash = 1\<rparr>, Fin 1), (\<lparr>score = Fin 0, hash = 2\<rparr>, Fin 1)])
       (Fin 1) (Fin 0)
     = Some (freq_scheduler_error_ok,
             reload_sch [(\<lparr>score = Fin 0, hash = 1\<rparr>, Fin 1), (\<lparr>score = Fin 0, hash = 2\<rparr>, Fin 1)])
   \<and> distinct (hashes [(\<lparr>score = Fin 0, hash = 1\<rparr>, Fin 1), (\<lparr>score = Fin 0, hash = 2\<rparr>, Fin 1)])
   \<and> distinct (map pf_hash two_freqs)
   \<and> freq_scheduler_load_mmap (env_ok Map.empty [] 0) fresh_scheduler two_freqs
     = Some (freq_scheduler_error_ok,
             fresh_scheduler\<lparr>schedule := [(\<lparr>score = Fin (1 / 2), hash = 1\<rparr>, Fin 2),
                                          (\<lparr>score = Fin 1, hash = 2\<rparr>, Fin 1)]\<rparr>)
   \<and> distinct (hashes [(\<lparr>score = Fin (1 / 2), hash = 1\<rparr>, Fin 2), (\<lparr>score = Fin 1, hash = 2\<rparr>, Fin 1)])"
proof -
  let ?t0 = "[(\<lparr>score = Fin 0, hash = 1\<rparr>, Fin 1), (\<lparr>score = Fin 0, hash = 2\<rparr>, Fin 1)]"
  let ?t2 = "[(\<lparr>score = Fin 2, hash = 1\<rparr>, Fin 2), (\<lparr>score = Fin 2, hash = 2\<rparr>, Fin 1)]"
  let ?t3 = "[(\<lparr>score = Fin (1 / 2), hash = 1\<rparr>, Fin 2), (\<lparr>score = Fin 1, hash = 2\<rparr>, Fin 1)]"
  let ?env = "env_ok (two_pages_db (page ''u1'' (Fin 0) 0) (page ''u2'' (Fin 0) 0)) [] 0"
  let ?sch = "fresh_scheduler\<lparr>margin := Fin (- 1), schedule := two_pages_table\<rparr>"
  have d: "distinct (hashes two_pages_table)"
    by (simp add: hashes_def two_pages_table_def)
  have "fp_lt (Fin (- 1)) (Fin 0)" by simp
  from two_pages_run [OF this, of "page ''u1'' (Fin 0) 0" "page ''u2'' (Fin 0) 0" "[]" 0]
  have r: "freq_scheduler_request ?env ?sch 6
           = Some (freq_scheduler_error_ok,
                   Some [''u1'', ''u2'', ''u1'', ''u1'', ''u2'', ''u1''],
                   fresh_scheduler\<lparr>margin := Fin (- 1), schedule := ?t2\<rparr>)"
    by (simp add: page_def)
  from operations_keep_hashes_distinct
         [where sch = ?sch and env = ?env and max_requests = 6 and c = freq_scheduler_error_ok
            and r = "Some [''u1'', ''u2'', ''u1'', ''u1'', ''u2'', ''u1'']"
            and sch' = "fresh_scheduler\<lparr>margin := Fin (- 1), schedule := ?t2\<rparr>"]
       d r
  have d2: "distinct (hashes ?t2)" by simp
  have z: "zero_scores ?t0" by (simp add: zero_scores_def)
  have o: "in_key_order ?t0"
    by (simp add: in_key_order_def schedule_entry_mdb_cmp_asc_def)
  have l: "freq_scheduler_load_simple reload_env (reload_sch ?t0) (Fin 1) (Fin 0)
           = Some (freq_scheduler_error_ok, reload_sch ?t0)"
    by (simp add: load_eval reload_env_def reload_sch_def reload_pages_def page_def)
  from operations_keep_hashes_distinct
         [where sch = "reload_sch ?t0" and env = reload_env and freq_default = "Fin 1"
            and freq_scale = "Fin 0" and cl = freq_scheduler_error_ok
            and schl = "reload_sch ?t0"]
       z o l
  have d0: "distinct (hashes ?t0)" by (simp add: reload_sch_def)
  have f: "distinct (map pf_hash two_freqs)" by (simp add: two_freqs_def)
  have m: "freq_scheduler_load_mmap (env_ok Map.empty [] 0) fresh_scheduler two_freqs
           = Some (freq_scheduler_error_ok, fresh_scheduler\<lparr>schedule := ?t3\<rparr>)"
    by (simp add: load_eval two_freqs_def)
  from operations_keep_hashes_distinct
         [where sch = fresh_scheduler and env = "env_ok Map.empty [] 0" and freqs = two_freqs
            and cm = freq_scheduler_error_ok
            and schm = "fresh_scheduler\<lparr>schedule := ?t3\<rparr>"]
       f m
  have d3: "distinct (hashes ?t3)" by (simp add: fresh_scheduler_def hashes_def)
  from d r d2 z o l d0 f m d3 show ?thesis by blast
qed

text \<open>
  A load, a request and the same load again: hash 1, advanced to score 1 by the request,
  is inserted a second time at score 0.
\<close>

theorem reload_duplicates_hash_counterexample:
  "freq_scheduler_load_simple reload_env (reload_sch []) (Fin 1) (Fin 0)
   = Some (freq_scheduler_error_ok,
           reload_sch [(\<lparr>score = Fin 0, hash = 1\<rparr>, Fin 1), (\<lparr>score = Fin 0, hash = 2\<rparr>, Fin 1)])
   \<and> freq_scheduler_request reload_env
       (reload_sch [(\<lparr>score = Fin 0, hash = 1\<rparr>, Fin 1), (\<lparr>score = Fin 0, hash = 2\<rparr>, Fin 1)]) 1
     = Some (freq_scheduler_error_ok, Some [''u1''],
             reload_sch [(\<lparr>score = Fin 0, hash = 2\<rparr>, Fin 1), (\<lparr>score = Fin 1, hash = 1\<rparr>, Fin 1)])
   \<and> freq_scheduler_load_simple reload_env
       (reload_sch [(\<lparr>score = Fin 0, hash = 2\<rparr>, Fin 1), (\<lparr>score = Fin 1, hash = 1\<rparr>, Fin 1)])
       (Fin 1) (Fin 0)
     = Some (freq_scheduler_error_ok, reload_sch capped_table)
   \<and> hashes capped_table = [1, 2, 1]
   \<and> \<not> distinct (hashes capped_table)"
proof -
  have l1: "freq_scheduler_load_simple reload_env (reload_sch []) (Fin 1) (Fin 0)
   = Some (freq_scheduler_error_ok,
           reload_sch [(\<lparr>score = Fin 0, hash = 1\<rparr>, Fin 1), (\<lparr>score = Fin 0, hash = 2\<rparr>, Fin 1)])"
    by (simp add: load_eval reload_env_def reload_sch_def reload_pages_def page_def)
  have r: "freq_scheduler_request reload_env
       (reload_sch [(\<lparr>score = Fin 0, hash = 1\<rparr>, Fin 1), (\<lparr>score = Fin 0, hash = 2\<rparr>, Fin 1)]) 1
     = Some (freq_scheduler_error_ok, Some [''u1''],
             reload_sch [(\<lparr>score = Fin 0, hash = 2\<rparr>, Fin 1), (\<lparr>score = Fin 1, hash = 1\<rparr>, Fin 1)])"
    by (simp add: request_eval reload_env_def reload_sch_def two_pages_db_def page_def fp_ge_def)
  have l2: "freq_scheduler_load_simple reload_env
       (reload_sch [(\<lparr>score = Fin 0, hash = 2\<rparr>, Fin 1), (\<lparr>score = Fin 1, hash = 1\<rparr>, Fin 1)])
       (Fin 1) (Fin 0)
     = Some (freq_scheduler_error_ok, reload_sch capped_table)"
    by (simp add: load_eval reload_env_def reload_sch_def reload_pages_def page_def capped_table_def)
  have h: "hashes capped_table = [1, 2, 1]"
    by (simp add: hashes_def capped_table_def)
  from l1 r l2 h show ?thesis by simp
qed

section \<open>The guard of the load from the page database\<close>

text \<open>
  C7 (the code at the failing input). The guard \<^verbatim>\<open>freq <= 0\<close> of
  \<^verbatim>\<open>freq_scheduler_cursor_write\<close> is false for NaN: with \<open>freq_default\<close> NaN and
  \<open>freq_scale\<close> 0, the crawled page of hash 1 is written with frequency NaN, which is not
  greater than 0.
\<close>

theorem load_simple_stores_nan_frequency:
  "freq_scheduler_load_simple (env_ok Map.empty [(1, page ''u1'' (Fin 0) 1)] 0) fresh_scheduler
     NaN (Fin 0)
   = Some (freq_scheduler_error_ok,
           fresh_scheduler\<lparr>schedule := [(\<lparr>score = Fin 0, hash = 1\<rparr>, NaN)]\<rparr>)
   \<and> \<not> fp_gt NaN (Fin 0)"
  by (simp add: load_eval page_def)

section \<open>The size of a batch, and the empty schedule\<close>

text \<open>
  C8. For every \<open>max_requests\<close>, the list \<^verbatim>\<open>freq_scheduler_request\<close> hands back holds at
  most \<open>max_requests\<close> URLs, whatever code comes with it, and it does hand back a list
  when no error is recorded on the instance and the transaction and the request list can
  be set up; in particular, on an empty schedule with a store that works, it returns the
  empty list and the success code and leaves the instance, schedule included, as it was.
\<close>

theorem request_length_bounded:
  "(\<forall>c urls sch'. freq_scheduler_request env sch max_requests = Some (c, Some urls, sch')
       \<longrightarrow> length urls \<le> max_requests)
   \<and> (txn_works env \<and> page_request_new_ok env
        \<and> code (error sch) = freq_scheduler_error_ok
      \<longrightarrow> (\<exists>c urls sch'. freq_scheduler_request env sch max_requests
                              = Some (c, Some urls, sch')))
   \<and> (txn_works env \<and> page_request_new_ok env \<and> mdb_cursor_get_rc env 0 = 0
        \<and> code (error sch) = freq_scheduler_error_ok \<and> schedule sch = []
      \<longrightarrow> freq_scheduler_request env sch max_requests
          = Some (freq_scheduler_error_ok, Some [], sch))"
proof (intro conjI allI impI)
  fix c urls sch'
  assume "freq_scheduler_request env sch max_requests = Some (c, Some urls, sch')"
  from request_urls [OF this] obtain f cur' where
    l: "request_loop env sch max_requests 0 False [] (schedule sch) = (f, urls, cur')"
    by blast
  show "length urls \<le> max_requests"
  proof (rule request_loop_induct_result
           [where P = "\<lambda>u c. length u \<le> max_requests", OF _ _ _ l])
    show "length ([] :: string list) \<le> max_requests" by simp
  next
    fix j u c b u' c'
    assume "length u < max_requests" "request_iter env sch j u c = Inr (b, u', c')"
    with request_iter_length [of env sch j u c b u' c']
    show "length u' \<le> max_requests" by simp
  next
    fix j u c e u'
    assume "length u < max_requests" "request_iter env sch j u c = Inl (e, u')"
    with request_iter_failure_length [of env sch j u c e u']
    show "length u' \<le> max_requests" by simp
  qed
next
  assume a: "txn_works env \<and> page_request_new_ok env
             \<and> code (error sch) = freq_scheduler_error_ok"
  obtain f urls cur' where
    l: "request_loop env sch max_requests 0 False [] (schedule sch) = (f, urls, cur')"
    by (cases "request_loop env sch max_requests 0 False [] (schedule sch)")
  from a l show "\<exists>c urls sch'. freq_scheduler_request env sch max_requests
                                = Some (c, Some urls, sch')"
    by (cases f)
       (simp_all add: txn_works_def freq_scheduler_request_def freq_scheduler_cursor_open_def
          freq_scheduler_cursor_commit_def Let_def)
next
  assume a: "txn_works env \<and> page_request_new_ok env \<and> mdb_cursor_get_rc env 0 = 0
        \<and> code (error sch) = freq_scheduler_error_ok \<and> schedule sch = []"
  then have it: "request_iter env sch 0 [] [] = Inr (True, [], [])"
    by (simp add: request_iter_def mdb_get_first_def)
  have "request_loop env sch max_requests 0 False [] [] = (None, [], [])"
    using it
    by (simp add: request_loop.simps [of env sch max_requests 0]
          request_loop.simps [of env sch max_requests "Suc 0"])
  with a have "request_loop env sch max_requests 0 False [] (schedule sch) = (None, [], [])"
    by simp
  from request_when_txn_works [OF _ _ _ this] a
  have "freq_scheduler_request env sch max_requests
        = Some (freq_scheduler_error_ok, Some [], sch\<lparr>schedule := []\<rparr>)"
    by simp
  moreover from a have "sch\<lparr>schedule := []\<rparr> = sch" by simp
  ultimately show "freq_scheduler_request env sch max_requests
                   = Some (freq_scheduler_error_ok, Some [], sch)"
    by simp
qed

text \<open>
  The scenario "empty schedule"; the two-pages call, which fills its batch of six; and
  the two-pages call for one URL with a store whose \<^verbatim>\<open>mdb_cursor_put\<close> fails: the list it
  hands back with the error code holds the URL added before the failure.
\<close>

theorem request_length_bounded_witness:
  "freq_scheduler_request (env_ok Map.empty [] 0) fresh_scheduler 100
   = Some (freq_scheduler_error_ok, Some [], fresh_scheduler)
   \<and> length ([] :: string list) \<le> 100
   \<and> freq_scheduler_request
        (env_ok (two_pages_db (page ''u1'' (Fin 0) 0) (page ''u2'' (Fin 0) 0)) [] 0)
        (fresh_scheduler\<lparr>schedule := two_pages_table\<rparr>) 6
     = Some (freq_scheduler_error_ok,
             Some [''u1'', ''u2'', ''u1'', ''u1'', ''u2'', ''u1''],
             fresh_scheduler\<lparr>schedule := [(\<lparr>score = Fin 2, hash = 1\<rparr>, Fin 2),
                                          (\<lparr>score = Fin 2, hash = 2\<rparr>, Fin 1)]\<rparr>)
   \<and> length [''u1'', ''u2'', ''u1'', ''u1'', ''u2'', ''u1''] \<le> (6 :: nat)
   \<and> freq_scheduler_request
        ((env_ok (two_pages_db (page ''u1'' (Fin 0) 0) (page ''u2'' (Fin 0) 0)) [] 0)
           \<lparr>mdb_cursor_put_rc := \<lambda>i. 1\<rparr>)
        (fresh_scheduler\<lparr>schedule := two_pages_table\<rparr>) 1
     = Some (freq_scheduler_error_internal, Some [''u1''],
             fresh_scheduler
               \<lparr>error := \<lparr>code = freq_scheduler_error_internal,
                           message = [Some ''freq_scheduler_request'',
                                      Some ''moving element inside schedule'', None]\<rparr>,
                schedule := two_pages_table\<rparr>)
   \<and> length [''u1''] \<le> (1 :: nat)"
proof -
  let ?env = "env_ok Map.empty [] 0"
  let ?env2 = "env_ok (two_pages_db (page ''u1'' (Fin 0) 0) (page ''u2'' (Fin 0) 0)) [] 0"
  let ?sch2 = "fresh_scheduler\<lparr>schedule := two_pages_table\<rparr>"
  have a: "txn_works ?env \<and> page_request_new_ok ?env \<and> mdb_cursor_get_rc ?env 0 = 0
        \<and> code (error fresh_scheduler) = freq_scheduler_error_ok \<and> schedule fresh_scheduler = []"
    by (simp add: txn_works_env_ok page_request_new_env_ok)
       (simp add: env_ok_def fresh_scheduler_def no_error_def)
  from request_length_bounded [of ?env fresh_scheduler 100] a
  have r: "freq_scheduler_request ?env fresh_scheduler 100
           = Some (freq_scheduler_error_ok, Some [], fresh_scheduler)"
    by blast
  from request_length_bounded [of ?env fresh_scheduler 100] r
  have r': "length ([] :: string list) \<le> 100" by blast
  have m: "fresh_scheduler\<lparr>margin := Fin (- 1)\<rparr> = fresh_scheduler"
    by (simp add: fresh_scheduler_def)
  have "fp_lt (Fin (- 1)) (Fin 0)" by simp
  from two_pages_run [OF this, of "page ''u1'' (Fin 0) 0" "page ''u2'' (Fin 0) 0" "[]" 0]
  have s: "freq_scheduler_request ?env2 ?sch2 6
           = Some (freq_scheduler_error_ok,
                   Some [''u1'', ''u2'', ''u1'', ''u1'', ''u2'', ''u1''],
                   fresh_scheduler\<lparr>schedule := [(\<lparr>score = Fin 2, hash = 1\<rparr>, Fin 2),
                                                (\<lparr>score = Fin 2, hash = 2\<rparr>, Fin 1)]\<rparr>)"
    by (simp add: page_def m)
  from request_length_bounded [of ?env2 ?sch2 6] s
  have s': "length [''u1'', ''u2'', ''u1'', ''u1'', ''u2'', ''u1''] \<le> (6 :: nat)" by blast
  have t: "freq_scheduler_request (?env2\<lparr>mdb_cursor_put_rc := \<lambda>i. 1\<rparr>) ?sch2 1
           = Some (freq_scheduler_error_internal, Some [''u1''],
                   fresh_scheduler
                     \<lparr>error := \<lparr>code = freq_scheduler_error_internal,
                                 message = [Some ''freq_scheduler_request'',
                                            Some ''moving element inside schedule'', None]\<rparr>,
                      schedule := two_pages_table\<rparr>)"
    by (simp add: request_eval two_pages_db_def two_pages_table_def page_def fp_ge_def
          on_error_def freq_scheduler_set_error_def freq_scheduler_add_error_def
          error_set_def error_add_def)
  from request_length_bounded [of "?env2\<lparr>mdb_cursor_put_rc := \<lambda>i. 1\<rparr>" ?sch2 1] t
  have t': "length [''u1''] \<le> (1 :: nat)" by blast
  from r r' s s' t t' show ?thesis by blast
qed

section \<open>The error record across operations\<close>

text \<open>
  C9 (as amended). The error record is never reset. An operation (request, load, add,
  dump) in which nothing fails returns the success code when the record holds the success
  code, that is when no operation on the instance has failed before, and the record then
  still holds it. Once an operation has left another code in the record, every operation
  returns a code other than the success code, also when nothing fails in it, and leaves
  such a code in the record, so that the same is true of every later operation; request,
  load and dump then leave the schedule as it was.
\<close>

theorem error_record_is_never_cleared:
  "(code (error sch) \<noteq> freq_scheduler_error_ok \<longrightarrow>
      (\<exists>c sch'. freq_scheduler_add env sch = (c, sch')
          \<and> c \<noteq> freq_scheduler_error_ok \<and> code (error sch') \<noteq> freq_scheduler_error_ok)
      \<and> (\<exists>c sch'. freq_scheduler_request env sch max_requests = Some (c, None, sch')
            \<and> c \<noteq> freq_scheduler_error_ok \<and> code (error sch') \<noteq> freq_scheduler_error_ok
            \<and> schedule sch' = schedule sch)
      \<and> (\<exists>c sch'. freq_scheduler_load_simple env sch freq_default freq_scale = Some (c, sch')
            \<and> c \<noteq> freq_scheduler_error_ok \<and> code (error sch') \<noteq> freq_scheduler_error_ok
            \<and> schedule sch' = schedule sch)
      \<and> (\<exists>c sch'. freq_scheduler_load_mmap env sch freqs = Some (c, sch')
            \<and> c \<noteq> freq_scheduler_error_ok \<and> code (error sch') \<noteq> freq_scheduler_error_ok
            \<and> schedule sch' = schedule sch)
      \<and> (\<exists>c sch'. freq_scheduler_dump env sch = Some (c, [], sch')
            \<and> c \<noteq> freq_scheduler_error_ok \<and> code (error sch') \<noteq> freq_scheduler_error_ok
            \<and> schedule sch' = schedule sch))
   \<and> (code (error sch) = freq_scheduler_error_ok \<and> nothing_fails env \<longrightarrow>
        freq_scheduler_add env sch = (freq_scheduler_error_ok, sch)
        \<and> (\<exists>urls sch'. freq_scheduler_request env sch max_requests
                           = Some (freq_scheduler_error_ok, Some urls, sch')
              \<and> code (error sch') = freq_scheduler_error_ok)
        \<and> (\<exists>sch'. freq_scheduler_load_simple env sch freq_default freq_scale
                      = Some (freq_scheduler_error_ok, sch')
              \<and> code (error sch') = freq_scheduler_error_ok)
        \<and> (\<exists>sch'. freq_scheduler_load_mmap env sch freqs = Some (freq_scheduler_error_ok, sch')
              \<and> code (error sch') = freq_scheduler_error_ok)
        \<and> (\<exists>out. freq_scheduler_dump env sch = Some (freq_scheduler_error_ok, out, sch)))"
proof (intro conjI impI)
  assume st: "code (error sch) \<noteq> freq_scheduler_error_ok"
  obtain c0 cursor sch1 where o: "freq_scheduler_cursor_open env sch = (c0, cursor, sch1)"
    by (cases "freq_scheduler_cursor_open env sch")
  from o st have c0: "c0 \<noteq> freq_scheduler_error_ok"
    by (auto simp: freq_scheduler_cursor_open_def Let_def freq_scheduler_add_error_def
          freq_scheduler_set_error_def error_add_def error_set_def split: if_splits)
  note oc = cursor_open_cases [OF o]
  show "\<exists>c sch'. freq_scheduler_add env sch = (c, sch')
          \<and> c \<noteq> freq_scheduler_error_ok \<and> code (error sch') \<noteq> freq_scheduler_error_ok"
    using st
    by (simp add: freq_scheduler_add_def Let_def freq_scheduler_add_error_def
          freq_scheduler_set_error_def error_add_def error_set_def)
  show "\<exists>c sch'. freq_scheduler_request env sch max_requests = Some (c, None, sch')
            \<and> c \<noteq> freq_scheduler_error_ok \<and> code (error sch') \<noteq> freq_scheduler_error_ok
            \<and> schedule sch' = schedule sch"
    using o c0 oc by (simp add: freq_scheduler_request_def Let_def)
  show "\<exists>c sch'. freq_scheduler_load_simple env sch freq_default freq_scale = Some (c, sch')
            \<and> c \<noteq> freq_scheduler_error_ok \<and> code (error sch') \<noteq> freq_scheduler_error_ok
            \<and> schedule sch' = schedule sch"
    using o c0 oc by (simp add: freq_scheduler_load_simple_def Let_def)
  show "\<exists>c sch'. freq_scheduler_load_mmap env sch freqs = Some (c, sch')
            \<and> c \<noteq> freq_scheduler_error_ok \<and> code (error sch') \<noteq> freq_scheduler_error_ok
            \<and> schedule sch' = schedule sch"
    using o c0 oc by (simp add: freq_scheduler_load_mmap_def Let_def)
  show "\<exists>c sch'. freq_scheduler_dump env sch = Some (c, [], sch')
            \<and> c \<noteq> freq_scheduler_error_ok \<and> code (error sch') \<noteq> freq_scheduler_error_ok
            \<and> schedule sch' = schedule sch"
    using o c0 oc by (simp add: freq_scheduler_dump_def)
next
  assume a: "code (error sch) = freq_scheduler_error_ok \<and> nothing_fails env"
  then have ok: "code (error sch) = freq_scheduler_error_ok" and nf: "nothing_fails env"
    by simp_all
  from nf have tw: "txn_works env" and puts: "\<forall>i. mdb_cursor_put_rc env i = 0"
    and gets: "\<forall>i. mdb_cursor_get_rc env i = 0"
    by (simp_all add: nothing_fails_def)
  have o: "freq_scheduler_cursor_open env sch
           = (freq_scheduler_error_ok, Some (schedule sch), sch)"
    using tw ok by (simp add: freq_scheduler_cursor_open_def txn_works_def)
  have cm: "freq_scheduler_cursor_commit env sch t
            = (freq_scheduler_error_ok, sch\<lparr>schedule := t\<rparr>)" for t
    using tw ok by (simp add: freq_scheduler_cursor_commit_def txn_works_def)
  show "freq_scheduler_add env sch = (freq_scheduler_error_ok, sch)"
    using nf ok by (simp add: freq_scheduler_add_def nothing_fails_def)
  show "\<exists>urls sch'. freq_scheduler_request env sch max_requests
                           = Some (freq_scheduler_error_ok, Some urls, sch')
              \<and> code (error sch') = freq_scheduler_error_ok"
  proof -
    obtain f urls cur' where
      l: "request_loop env sch max_requests 0 False [] (schedule sch) = (f, urls, cur')"
      by (cases "request_loop env sch max_requests 0 False [] (schedule sch)")
    with request_loop_no_failure [OF nf, of sch max_requests 0 False "[]" "schedule sch"]
    have "f = None" by simp
    with l nf have "freq_scheduler_request env sch max_requests
          = Some (freq_scheduler_error_ok, Some urls, sch\<lparr>schedule := cur'\<rparr>)"
      by (intro request_when_txn_works tw ok) (simp_all add: nothing_fails_def)
    with ok show ?thesis by simp
  qed
  show "\<exists>sch'. freq_scheduler_load_simple env sch freq_default freq_scale
                      = Some (freq_scheduler_error_ok, sch')
              \<and> code (error sch') = freq_scheduler_error_ok"
  proof -
    from load_simple_loop_no_failure [OF puts ok] obtain cur' where
      "load_simple_loop env freq_default freq_scale (hashinfo_stream env) 0 sch (schedule sch)
       = (False, sch, cur')"
      by blast
    with o cm nf ok show ?thesis
      by (simp add: freq_scheduler_load_simple_def nothing_fails_def)
  qed
  show "\<exists>sch'. freq_scheduler_load_mmap env sch freqs = Some (freq_scheduler_error_ok, sch')
              \<and> code (error sch') = freq_scheduler_error_ok"
  proof -
    from load_mmap_loop_no_failure [OF puts] obtain cur' where
      "load_mmap_loop env freqs 0 (schedule sch) = Inr cur'"
      by blast
    with o cm nf ok show ?thesis
      by (simp add: freq_scheduler_load_mmap_def nothing_fails_def)
  qed
  show "\<exists>out. freq_scheduler_dump env sch = Some (freq_scheduler_error_ok, out, sch)"
  proof -
    from dump_loop_no_failure [OF gets] obtain out where
      "dump_loop env 0 (schedule sch) sch [] = (sch, out)"
      by blast
    with o ok show ?thesis by (simp add: freq_scheduler_dump_def)
  qed
qed

text \<open>
  A \<^verbatim>\<open>freq_scheduler_add\<close> whose \<^verbatim>\<open>page_db_add\<close> fails leaves the internal-error code;
  afterwards an add and a request in which nothing fails return it. On the fresh
  instance the same add and request return the success code.
\<close>

theorem error_record_is_never_cleared_witness:
  "freq_scheduler_add ((env_ok Map.empty [] 0)\<lparr>page_db_add_rc := 1\<rparr>) fresh_scheduler
   = (freq_scheduler_error_internal, fresh_scheduler\<lparr>error := stale_error\<rparr>)
   \<and> code (error (fresh_scheduler\<lparr>error := stale_error\<rparr>)) \<noteq> freq_scheduler_error_ok
   \<and> freq_scheduler_add (env_ok Map.empty [] 0) (fresh_scheduler\<lparr>error := stale_error\<rparr>)
     = (freq_scheduler_error_internal, fresh_scheduler\<lparr>error := stale_error\<rparr>)
   \<and> (\<exists>c sch'. freq_scheduler_request (env_ok Map.empty [] 0)
                  (fresh_scheduler\<lparr>error := stale_error\<rparr>) 100 = Some (c, None, sch')
         \<and> c \<noteq> freq_scheduler_error_ok \<and> code (error sch') \<noteq> freq_scheduler_error_ok)
   \<and> code (error fresh_scheduler) = freq_scheduler_error_ok
   \<and> nothing_fails (env_ok Map.empty [] 0)
   \<and> freq_scheduler_add (env_ok Map.empty [] 0) fresh_scheduler
     = (freq_scheduler_error_ok, fresh_scheduler)
   \<and> (\<exists>urls sch'. freq_scheduler_request (env_ok Map.empty [] 0) fresh_scheduler 100
                    = Some (freq_scheduler_error_ok, Some urls, sch')
         \<and> code (error sch') = freq_scheduler_error_ok)"
proof -
  let ?env = "env_ok Map.empty [] 0"
  let ?stale = "fresh_scheduler\<lparr>error := stale_error\<rparr>"
  have a: "freq_scheduler_add (?env\<lparr>page_db_add_rc := 1\<rparr>) fresh_scheduler
           = (freq_scheduler_error_internal, ?stale)"
    by (simp add: freq_scheduler_add_def env_ok_def fresh_scheduler_def stale_error_def
          no_error_def freq_scheduler_add_error_def freq_scheduler_set_error_def
          error_add_def error_set_def)
  have b: "code (error ?stale) \<noteq> freq_scheduler_error_ok"
    by (simp add: stale_error_def)
  have a2: "freq_scheduler_add ?env ?stale = (freq_scheduler_error_internal, ?stale)"
    by (simp add: freq_scheduler_add_def env_ok_def stale_error_def)
  from error_record_is_never_cleared [where sch = ?stale and env = ?env and max_requests = 100] b
  have r: "\<exists>c sch'. freq_scheduler_request ?env ?stale 100 = Some (c, None, sch')
         \<and> c \<noteq> freq_scheduler_error_ok \<and> code (error sch') \<noteq> freq_scheduler_error_ok"
    by blast
  have c: "code (error fresh_scheduler) = freq_scheduler_error_ok"
    by (simp add: fresh_scheduler_def no_error_def)
  note n = nothing_fails_env_ok [of Map.empty "[]" 0]
  from error_record_is_never_cleared
         [where sch = fresh_scheduler and env = ?env and max_requests = 100] c n
  have d: "freq_scheduler_add ?env fresh_scheduler = (freq_scheduler_error_ok, fresh_scheduler)"
    and e: "\<exists>urls sch'. freq_scheduler_request ?env fresh_scheduler 100
                    = Some (freq_scheduler_error_ok, Some urls, sch')
         \<and> code (error sch') = freq_scheduler_error_ok"
    by blast+
  from a b a2 r c n d e show ?thesis by blast
qed

text \<open>
  After a failed \<^verbatim>\<open>freq_scheduler_add\<close>, a second one whose \<^verbatim>\<open>page_db_add\<close> succeeds
  still returns the internal-error code.
\<close>

theorem stale_error_counterexample:
  "page_db_add_rc (env_ok Map.empty [] 0) = 0
   \<and> freq_scheduler_add (env_ok Map.empty [] 0) (fresh_scheduler\<lparr>error := stale_error\<rparr>)
     = (freq_scheduler_error_internal, fresh_scheduler\<lparr>error := stale_error\<rparr>)
   \<and> freq_scheduler_error_internal \<noteq> freq_scheduler_error_ok"
  by (simp add: freq_scheduler_add_def env_ok_def stale_error_def)

section \<open>Opening a cursor when LMDB fails\<close>

text \<open>
  C10. For every prior error state: when the transaction has begun and the opening of the
  table, the registration of the comparator or the opening of the cursor fails,
  \<^verbatim>\<open>freq_scheduler_cursor_open\<close> hands back a NULL cursor and the error code the instance
  already had (the success code when nothing failed before), and leaves the error record
  as it was.
\<close>

theorem cursor_open_mdb_failure_keeps_error:
  assumes "txn_manager_begin_rc env = 0"
    and "mdb_dbi_open_rc env \<noteq> 0 \<or> mdb_set_compare_rc env \<noteq> 0 \<or> mdb_cursor_open_rc env \<noteq> 0"
  shows "freq_scheduler_cursor_open env sch = (code (error sch), None, sch)"
  using assms by (simp add: freq_scheduler_cursor_open_def)

theorem cursor_open_mdb_failure_witness:
  "txn_manager_begin_rc ((env_ok Map.empty [] 0)\<lparr>mdb_cursor_open_rc := 1\<rparr>) = 0
   \<and> mdb_cursor_open_rc ((env_ok Map.empty [] 0)\<lparr>mdb_cursor_open_rc := 1\<rparr>) \<noteq> 0
   \<and> freq_scheduler_cursor_open ((env_ok Map.empty [] 0)\<lparr>mdb_cursor_open_rc := 1\<rparr>)
        (fresh_scheduler\<lparr>error := stale_error\<rparr>)
      = (freq_scheduler_error_internal, None, fresh_scheduler\<lparr>error := stale_error\<rparr>)
   \<and> freq_scheduler_cursor_open ((env_ok Map.empty [] 0)\<lparr>mdb_cursor_open_rc := 1\<rparr>)
        fresh_scheduler
      = (freq_scheduler_error_ok, None, fresh_scheduler)"
  using cursor_open_mdb_failure_keeps_error
          [of "(env_ok Map.empty [] 0)\<lparr>mdb_cursor_open_rc := 1\<rparr>"
              "fresh_scheduler\<lparr>error := stale_error\<rparr>"]
        cursor_open_mdb_failure_keeps_error
          [of "(env_ok Map.empty [] 0)\<lparr>mdb_cursor_open_rc := 1\<rparr>" fresh_scheduler]
  by (simp add: env_ok_def fresh_scheduler_def stale_error_def no_error_def)

end
